theory Spec2Isabelle
  imports
    Complex_Main
    "HOL-Library.Char_ord"
    "HOL-Library.List_Lexorder"
    "HOL-Library.Product_Lexorder"
    "HOL-Library.AList"
begin

section \<open>Python values used by \<^verbatim>\<open>recommend.py\<close>\<close>

text \<open>
  Conventions of the embedding.
  \<^item> A Python \<^verbatim>\<open>float\<close> is a \<^typ>\<open>real\<close>: \<^verbatim>\<open>math.log\<close> is \<^const>\<open>ln\<close> and
    \<^verbatim>\<open>math.sqrt\<close> is \<^const>\<open>sqrt\<close>.  The arithmetic of \<^verbatim>\<open>cosine\<close> takes the
    rounding of each operation as a parameter, so that it can be read in exact arithmetic
    and in binary64; elsewhere the arithmetic is exact.  Infinities, NaN, overflow and
    underflow are outside the model.
  \<^item> A Python \<^verbatim>\<open>str\<close> is a \<^typ>\<open>string\<close> of 8-bit characters; comparison of
    strings is lexicographic on character codes, as in Python.  \<^verbatim>\<open>str.lower\<close> is
    modelled on the ASCII letters.
  \<^item> A Python \<^verbatim>\<open>dict\<close> whose iteration order is observed is an association list in
    insertion order with pairwise distinct keys; a dict that is only looked up is a map.
  \<^item> A timestamp is the integer number of microseconds since 1601-01-01 UTC.
\<close>

datatype py_error = KeyError | IndexError | OverflowError

text \<open>\<^verbatim>\<open>d.get(k, default)\<close>\<close>

definition dict_get :: "('k \<times> 'v) list \<Rightarrow> 'k \<Rightarrow> 'v \<Rightarrow> 'v" where
  "dict_get d k dflt = (case map_of d k of None \<Rightarrow> dflt | Some v \<Rightarrow> v)"

text \<open>\<^verbatim>\<open>d[k] = v\<close>: an existing key keeps its position, a new key goes to the end.\<close>

definition dict_set :: "('k \<times> 'v) list \<Rightarrow> 'k \<Rightarrow> 'v \<Rightarrow> ('k \<times> 'v) list" where
  "dict_set d k v = AList.update k v d"

text \<open>
  \<^verbatim>\<open>xs.sort(key=f, reverse=True)\<close>.  CPython reverses the list, runs its stable
  ascending sort and reverses the result, which keeps elements with equal keys in their
  original order.
\<close>

definition py_sort_reverse_key :: "('a \<Rightarrow> 'k::linorder) \<Rightarrow> 'a list \<Rightarrow> 'a list" where
  "py_sort_reverse_key f xs = rev (sort_key f (rev xs))"

text \<open>\<^verbatim>\<open>xs[:n]\<close>; a negative bound counts from the end.\<close>

definition py_slice_to :: "'a list \<Rightarrow> int \<Rightarrow> 'a list" where
  "py_slice_to xs n =
     (if 0 \<le> n then take (nat n) xs else take (length xs - nat (- n)) xs)"

text \<open>
  Rounding of a real number to binary64, to nearest and ties to even, with an unbounded
  exponent range: \<open>e\<close> is the binary exponent of \<open>x\<close> and \<^verbatim>\<open>2**(e - 52)\<close> the spacing of the
  53-bit significands there.
\<close>

definition pow2 :: "int \<Rightarrow> real" where
  "pow2 k = (if 0 \<le> k then 2 ^ nat k else 1 / 2 ^ nat (- k))"

definition round_even :: "real \<Rightarrow> int" where
  "round_even r =
     (if r - of_int \<lfloor>r\<rfloor> < 1 / 2 then \<lfloor>r\<rfloor>
      else if 1 / 2 < r - of_int \<lfloor>r\<rfloor> then \<lfloor>r\<rfloor> + 1
      else if even \<lfloor>r\<rfloor> then \<lfloor>r\<rfloor>
      else \<lfloor>r\<rfloor> + 1)"

definition double_round :: "real \<Rightarrow> real" where
  "double_round x =
     (if x = 0 then 0
      else
        let e = \<lfloor>log 2 \<bar>x\<bar>\<rfloor>;
            u = pow2 (e - 52)
        in of_int (round_even (x / u)) * u)"

text \<open>
  \<^verbatim>\<open>sum(xs)\<close> on floats, adding from the left and rounding each partial sum.  (CPython
  from 3.12 on compensates the rounding errors of \<^verbatim>\<open>sum\<close>; the two agree wherever every
  partial sum is exact.)
\<close>

definition py_sum :: "(real \<Rightarrow> real) \<Rightarrow> real list \<Rightarrow> real" where
  "py_sum rnd xs = fold (\<lambda>x s. rnd (s + x)) xs 0"

section \<open>Tokenizer\<close>

definition STOPWORDS :: "string set" where
  "STOPWORDS = {
    ''a'', ''an'', ''and'', ''are'', ''as'', ''at'', ''be'', ''but'', ''by'', ''for'', ''from'',
    ''has'', ''have'', ''if'', ''in'', ''into'', ''is'', ''it'', ''its'', ''of'', ''on'', ''or'',
    ''that'', ''the'', ''their'', ''there'', ''to'', ''was'', ''were'', ''will'', ''with'',
    ''you'', ''your''}"

definition lower_char :: "char \<Rightarrow> char" where
  "lower_char c =
     (case map_of (zip ''ABCDEFGHIJKLMNOPQRSTUVWXYZ'' ''abcdefghijklmnopqrstuvwxyz'') c of
        None \<Rightarrow> c
      | Some l \<Rightarrow> l)"

definition lower :: "string \<Rightarrow> string" where
  "lower text = map lower_char text"

text \<open>The character class \<^verbatim>\<open>[a-z0-9]\<close> of \<^verbatim>\<open>TOKEN_RE\<close>.\<close>

definition is_token_char :: "char \<Rightarrow> bool" where
  "is_token_char c =
     ((CHR ''a'' \<le> c \<and> c \<le> CHR ''z'') \<or> (CHR ''0'' \<le> c \<and> c \<le> CHR ''9''))"

text \<open>
  \<^verbatim>\<open>TOKEN_RE.findall(s)\<close> for \<^verbatim>\<open>TOKEN_RE = re.compile(r"[a-z0-9]{3,}")\<close>, as the
  regular-expression engine runs it: at the current position the greedy quantifier takes
  every character of the class that follows; with three or more the match is reported and
  the scan resumes behind it, otherwise the scan moves one character on.
\<close>

function TOKEN_RE_findall :: "string \<Rightarrow> string list" where
  "TOKEN_RE_findall [] = []"
| "TOKEN_RE_findall (c # cs) =
     (let m = takeWhile is_token_char (c # cs)
      in if 3 \<le> length m
         then m # TOKEN_RE_findall (drop (length m) (c # cs))
         else TOKEN_RE_findall cs)"
  by pat_completeness auto
termination
  by (relation "measure length") auto

text \<open>\<^verbatim>\<open>tokenize(text)\<close>; \<^verbatim>\<open>None\<close> and the empty string are both falsy.\<close>

fun tokenize :: "string option \<Rightarrow> string list" where
  "tokenize None = []"
| "tokenize (Some text) =
     (if text = [] then []
      else filter (\<lambda>t. t \<notin> STOPWORDS) (TOKEN_RE_findall (lower text)))"

text \<open>
  The specification's wording, for comparison with \<^const>\<open>tokenize\<close>: the maximal runs
  of characters satisfying \<open>P\<close>, in order of occurrence \<dots>
\<close>

function maximal_runs :: "(char \<Rightarrow> bool) \<Rightarrow> string \<Rightarrow> string list" where
  "maximal_runs P s =
     (let s' = dropWhile (\<lambda>c. \<not> P c) s
      in if s' = [] then []
         else takeWhile P s' # maximal_runs P (dropWhile P s'))"
  by pat_completeness auto
termination
proof (relation "measure (\<lambda>(P, s). length s)", goal_cases)
  case 1
  show ?case by simp
next
  case (2 P s s')
  have shorter: "length (dropWhile P xs) < length xs" if "xs \<noteq> []" "P (hd xs)" for xs
    using that by (cases xs) (simp_all add: less_Suc_eq_le length_dropWhile_le)
  from 2 have "P (hd s')"
    using hd_dropWhile [of "\<lambda>c. \<not> P c" s] by auto
  with 2 have "length (dropWhile P s') < length s'"
    by (intro shorter) simp_all
  moreover have "length s' \<le> length s"
    using 2 by (simp add: length_dropWhile_le)
  ultimately show ?case by simp
qed

text \<open>
  \<dots> of which the lower-cased text keeps those of length at least 3 that are not
  stop words.
\<close>

definition spec_tokenize :: "string \<Rightarrow> string list" where
  "spec_tokenize text =
     filter (\<lambda>t. t \<notin> STOPWORDS)
       (filter (\<lambda>r. 3 \<le> length r) (maximal_runs is_token_char (lower text)))"

section \<open>Documents and the vector space\<close>

text \<open>The dictionaries that \<^verbatim>\<open>build_docs\<close> appends to \<^verbatim>\<open>docs\<close>.\<close>

record doc =
  doc_id :: int
  url :: string
  title :: string
  visit_count :: int
  last_visit :: "int option"
  host :: string
  tokens :: "string list"

type_synonym vec = "(string \<times> real) list"

text \<open>
  First loop of \<^verbatim>\<open>tfidf_vectors\<close>.  \<^verbatim>\<open>df\<close> is only ever looked up, so it is a map;
  \<^verbatim>\<open>set(doc["tokens"])\<close> is walked in the order of \<^const>\<open>remdups\<close>.
\<close>

definition df_count_doc :: "(string \<rightharpoonup> nat) \<Rightarrow> doc \<Rightarrow> (string \<rightharpoonup> nat)" where
  "df_count_doc df d =
     fold (\<lambda>t df. df(t \<mapsto> (case df t of None \<Rightarrow> 0 | Some c \<Rightarrow> c) + 1))
       (remdups (tokens d)) df"

definition document_frequency :: "doc list \<Rightarrow> (string \<rightharpoonup> nat)" where
  "document_frequency docs = fold (\<lambda>d df. df_count_doc df d) docs Map.empty"

text \<open>Second loop: the dictionary \<^verbatim>\<open>tf\<close> of one document.\<close>

definition term_frequency :: "string list \<Rightarrow> (string \<times> nat) list" where
  "term_frequency toks = fold (\<lambda>t tf. dict_set tf t (dict_get tf t 0 + 1)) toks []"

text \<open>\<^verbatim>\<open>math.log((n + 1) / (1 + df.get(t, 0))) + 1.0\<close>\<close>

definition idf :: "nat \<Rightarrow> (string \<rightharpoonup> nat) \<Rightarrow> string \<Rightarrow> real" where
  "idf n df t =
     ln (real (n + 1) / real (1 + (case df t of None \<Rightarrow> 0 | Some c \<Rightarrow> c))) + 1"

definition doc_vector :: "nat \<Rightarrow> (string \<rightharpoonup> nat) \<Rightarrow> doc \<Rightarrow> vec" where
  "doc_vector n df d =
     fold (\<lambda>(t, c) vec. dict_set vec t (real c * idf n df t)) (term_frequency (tokens d)) []"

definition tfidf_vectors :: "doc list \<Rightarrow> vec list" where
  "tfidf_vectors docs =
     (let df = document_frequency docs;
          n = length docs
      in map (doc_vector n df) docs)"

section \<open>Similarity\<close>

text \<open>
  \<^verbatim>\<open>cosine(a, b)\<close>, with the rounding \<open>rnd\<close> applied to the result of every floating-point
  operation.
\<close>

definition cosine_with :: "(real \<Rightarrow> real) \<Rightarrow> vec \<Rightarrow> vec \<Rightarrow> real" where
  "cosine_with rnd a b =
     (if a = [] \<or> b = [] then 0
      else
        let dot = fold (\<lambda>(k, v) dot. rnd (dot + rnd (v * dict_get b k 0))) a 0;
            norm_a = rnd (sqrt (py_sum rnd (map (\<lambda>v. rnd (v * v)) (map snd a))));
            norm_b = rnd (sqrt (py_sum rnd (map (\<lambda>v. rnd (v * v)) (map snd b))))
        in if norm_a = 0 \<or> norm_b = 0 then 0
           else rnd (dot / rnd (norm_a * norm_b)))"

text \<open>\<^verbatim>\<open>cosine\<close> as Python runs it, in binary64.\<close>

definition cosine_double :: "vec \<Rightarrow> vec \<Rightarrow> real" where
  "cosine_double a b = cosine_with double_round a b"

text \<open>\<^verbatim>\<open>cosine\<close> in exact arithmetic, where no operation rounds.\<close>

definition cosine :: "vec \<Rightarrow> vec \<Rightarrow> real" where
  "cosine a b = cosine_with (\<lambda>x. x) a b"

text \<open>
  \<^verbatim>\<open>aggregate_vector(vectors, weights=None)\<close>.  \<^verbatim>\<open>not weights\<close> holds for \<^verbatim>\<open>None\<close> and
  for the empty list; \<^verbatim>\<open>weights[i]\<close> raises when the list is too short.
\<close>

fun aggregate_loop ::
  "vec \<Rightarrow> nat \<Rightarrow> vec list \<Rightarrow> real list option \<Rightarrow> py_error + vec" where
  "aggregate_loop agg i [] weights = Inr agg"
| "aggregate_loop agg i (vec # rest) weights =
     (case (case weights of
              None \<Rightarrow> Inr 1
            | Some ws \<Rightarrow> if ws = [] then Inr 1
                         else if i < length ws then Inr (ws ! i) else Inl IndexError) of
        Inl e \<Rightarrow> Inl e
      | Inr w \<Rightarrow>
          aggregate_loop
            (fold (\<lambda>(k, v) agg. dict_set agg k (dict_get agg k 0 + v * w)) vec agg)
            (Suc i) rest weights)"

definition aggregate_vector :: "vec list \<Rightarrow> real list option \<Rightarrow> py_error + vec" where
  "aggregate_vector vectors weights = aggregate_loop [] 0 vectors weights"

section \<open>Explanation and clustering\<close>

text \<open>
  \<^verbatim>\<open>contributions.sort(reverse=True)\<close> compares the pairs \<^verbatim>\<open>(contrib, token)\<close>
  themselves, that is lexicographically: on the product first, on the token text second.
\<close>

definition explain_doc :: "vec \<Rightarrow> vec \<Rightarrow> int \<Rightarrow> string list" where
  "explain_doc interest_vec doc_vec topn =
     (if topn \<le> 0 then []
      else
        let contributions =
              filter (\<lambda>(contrib, token). 0 < contrib)
                (map (\<lambda>(token, weight). (weight * dict_get interest_vec token 0, token))
                   doc_vec)
        in map snd (py_slice_to (py_sort_reverse_key (\<lambda>x. x) contributions) topn))"

text \<open>
  The result of \<^verbatim>\<open>format_row\<close>.  The row keeps the score and the document whose fields it
  shows (\<^verbatim>\<open>r["host"]\<close> is \<^verbatim>\<open>doc["host"]\<close>); their rendering as text cannot fail.  The
  date can: \<^verbatim>\<open>last_visit.astimezone().strftime("%Y-%m-%d")\<close> converts to the local time
  zone of the machine and raises \<^verbatim>\<open>OverflowError\<close> when the local time leaves the range
  of \<^verbatim>\<open>datetime\<close>.  That conversion is the parameter \<open>local_date\<close>.
\<close>

record row =
  score :: real
  row_doc :: doc
  last_visit_str :: string
  why_tokens :: "string list"

definition format_row ::
  "(int \<Rightarrow> py_error + string) \<Rightarrow> real \<Rightarrow> doc \<Rightarrow> string list \<Rightarrow> py_error + row" where
  "format_row local_date s d why =
     (case (case last_visit d of None \<Rightarrow> Inr [] | Some t \<Rightarrow> local_date t) of
        Inl e \<Rightarrow> Inl e
      | Inr date \<Rightarrow>
          Inr \<lparr>score = s, row_doc = d, last_visit_str = date, why_tokens = why\<rparr>)"

text \<open>A row after \<^verbatim>\<open>r["cluster"] = \<dots>\<close> has been stored into it.\<close>

record clustered_row = row +
  cluster :: string

definition assign_cluster :: "bool \<Rightarrow> row \<Rightarrow> clustered_row" where
  "assign_cluster cluster_enabled r =
     row.extend r
       (clustered_row.fields
         (if cluster_enabled \<and> why_tokens r \<noteq> [] then hd (why_tokens r)
          else if host (row_doc r) \<noteq> [] then host (row_doc r)
          else ''other''))"

record cluster_info =
  info_count :: nat
  info_tokens :: "(string \<times> nat) list"

record cluster_summary =
  count :: nat
  top_tokens :: "string list"

text \<open>One turn of the first loop of \<^verbatim>\<open>build_cluster_summary\<close>.\<close>

definition add_row ::
  "(string \<times> cluster_info) list \<Rightarrow> clustered_row \<Rightarrow> (string \<times> cluster_info) list" where
  "add_row clusters r =
     (let name = cluster r;
          info = dict_get clusters name \<lparr>info_count = 0, info_tokens = []\<rparr>
      in dict_set clusters name
           \<lparr>info_count = info_count info + 1,
            info_tokens =
              fold (\<lambda>t toks. dict_set toks t (dict_get toks t 0 + 1))
                (why_tokens r) (info_tokens info)\<rparr>)"

text \<open>\<^verbatim>\<open>sorted(info["tokens"].items(), key=lambda x: (-x[1], x[0]))\<close> and the slice.\<close>

definition summarize :: "cluster_info \<Rightarrow> int \<Rightarrow> cluster_summary" where
  "summarize info topn =
     (let token_counts = sort_key (\<lambda>x. (- int (snd x), fst x)) (info_tokens info)
      in \<lparr>count = info_count info, top_tokens = map fst (py_slice_to token_counts topn)\<rparr>)"

definition build_cluster_summary ::
  "clustered_row list \<Rightarrow> int \<Rightarrow> (string \<times> cluster_summary) list" where
  "build_cluster_summary rows topn =
     (let clusters = fold (\<lambda>r clusters. add_row clusters r) rows []
      in fold (\<lambda>(name, info) summaries. dict_set summaries name (summarize info topn))
           clusters [])"

section \<open>The pipeline of \<^verbatim>\<open>main\<close>\<close>

text \<open>
  \<^verbatim>\<open>exclude_patterns.search\<close> is a parameter: the regular expression is assembled from
  the command line before the pipeline starts.
\<close>

definition is_reading_candidate :: "doc \<Rightarrow> string set \<Rightarrow> (string \<Rightarrow> bool) \<Rightarrow> bool" where
  "is_reading_candidate d exclude_hosts exclude_patterns =
     (if lower (host d) \<in> exclude_hosts then False
      else if exclude_patterns (url d) \<or> exclude_patterns (title d) then False
      else True)"

text \<open>The command-line options that the pipeline reads.\<close>

record args =
  limit :: int
  recent_days :: int
  dedupe_host :: bool
  explain_top :: int
  no_cluster :: bool

text \<open>
  \<^verbatim>\<open>now - dt.timedelta(days=recent_days)\<close>.  A \<^verbatim>\<open>timedelta\<close> holds at most 999999999
  days, and a \<^verbatim>\<open>datetime\<close> lies between 0001-01-01 and the end of 9999-12-31, that is
  584388 days before and 3067671 days after 1601-01-01; outside, Python raises
  \<^verbatim>\<open>OverflowError\<close>.
\<close>

definition recency_cutoff :: "int \<Rightarrow> int \<Rightarrow> py_error + int" where
  "recency_cutoff now days =
     (if 999999999 < \<bar>days\<bar> then Inl OverflowError
      else
        let c = now - days * 86400000000
        in if c < - 584388 * 86400000000 \<or> 3067671 * 86400000000 \<le> c
           then Inl OverflowError
           else Inr c)"

text \<open>
  The two filters of the split: \<^verbatim>\<open>d["last_visit"] and d["last_visit"] >= cutoff\<close> and
  \<^verbatim>\<open>not d["last_visit"] or d["last_visit"] < cutoff\<close>.
\<close>

definition is_recent :: "int \<Rightarrow> doc \<Rightarrow> bool" where
  "is_recent cutoff d = (case last_visit d of None \<Rightarrow> False | Some t \<Rightarrow> cutoff \<le> t)"

definition is_older :: "int \<Rightarrow> doc \<Rightarrow> bool" where
  "is_older cutoff d = (case last_visit d of None \<Rightarrow> True | Some t \<Rightarrow> t < cutoff)"

text \<open>\<^verbatim>\<open>{d["id"]: i for i, d in enumerate(docs)}\<close>: the last document with an id wins.\<close>

definition doc_index_of :: "doc list \<Rightarrow> (int \<rightharpoonup> nat)" where
  "doc_index_of docs =
     fold (\<lambda>(i, d) m. m(doc_id d \<mapsto> i)) (enumerate 0 docs) Map.empty"

text \<open>\<^verbatim>\<open>vectors[doc_index[d["id"]]]\<close>\<close>

definition vector_at :: "vec list \<Rightarrow> (int \<rightharpoonup> nat) \<Rightarrow> doc \<Rightarrow> py_error + vec" where
  "vector_at vectors doc_index d =
     (case doc_index (doc_id d) of
        None \<Rightarrow> Inl KeyError
      | Some i \<Rightarrow> if i < length vectors then Inr (vectors ! i) else Inl IndexError)"

text \<open>\<^verbatim>\<open>[vectors[doc_index[d["id"]]] for d in recent_docs]\<close>\<close>

fun vectors_at :: "vec list \<Rightarrow> (int \<rightharpoonup> nat) \<Rightarrow> doc list \<Rightarrow> py_error + vec list" where
  "vectors_at vectors doc_index [] = Inr []"
| "vectors_at vectors doc_index (d # ds) =
     (case vector_at vectors doc_index d of
        Inl e \<Rightarrow> Inl e
      | Inr v \<Rightarrow>
          (case vectors_at vectors doc_index ds of
             Inl e \<Rightarrow> Inl e
           | Inr vs \<Rightarrow> Inr (v # vs)))"

text \<open>
  The loop that fills \<^verbatim>\<open>scored\<close>: a candidate whose score is not positive is skipped,
  the others are kept in the order of \<^verbatim>\<open>older_docs\<close>.
\<close>

fun score_candidates ::
  "vec \<Rightarrow> vec list \<Rightarrow> (int \<rightharpoonup> nat) \<Rightarrow> doc list \<Rightarrow> py_error + (real \<times> doc) list" where
  "score_candidates interest vectors doc_index [] = Inr []"
| "score_candidates interest vectors doc_index (d # ds) =
     (case vector_at vectors doc_index d of
        Inl e \<Rightarrow> Inl e
      | Inr v \<Rightarrow>
          (case score_candidates interest vectors doc_index ds of
             Inl e \<Rightarrow> Inl e
           | Inr rest \<Rightarrow>
               if cosine interest v \<le> 0 then Inr rest
               else Inr ((cosine interest v, d) # rest)))"

text \<open>\<^verbatim>\<open>scored.sort(key=lambda x: x[0], reverse=True)\<close>\<close>

definition rank_scored :: "(real \<times> doc) list \<Rightarrow> (real \<times> doc) list" where
  "rank_scored scored = py_sort_reverse_key fst scored"

text \<open>The loop that fills \<^verbatim>\<open>results\<close>, with its \<^verbatim>\<open>continue\<close> and its \<^verbatim>\<open>break\<close>.\<close>

fun collect_results ::
  "(int \<Rightarrow> py_error + string) \<Rightarrow> args \<Rightarrow> vec \<Rightarrow> vec list \<Rightarrow> (int \<rightharpoonup> nat) \<Rightarrow> string set
     \<Rightarrow> row list \<Rightarrow> (real \<times> doc) list \<Rightarrow> py_error + row list" where
  "collect_results local_date a interest vectors doc_index seen_hosts results [] = Inr results"
| "collect_results local_date a interest vectors doc_index seen_hosts results ((s, d) # rest) =
     (if dedupe_host a \<and> host d \<in> seen_hosts
      then collect_results local_date a interest vectors doc_index seen_hosts results rest
      else
        case vector_at vectors doc_index d of
          Inl e \<Rightarrow> Inl e
        | Inr v \<Rightarrow>
            (case format_row local_date s d (explain_doc interest v (explain_top a)) of
               Inl e \<Rightarrow> Inl e
             | Inr r \<Rightarrow>
                 let results' = results @ [r]
                 in if limit a \<le> int (length results') then Inr results'
                    else collect_results local_date a interest vectors doc_index
                           (insert (host d) seen_hosts) results' rest))"

text \<open>How a run of the pipeline ends: \<^verbatim>\<open>print(message); return 1\<close>, or an exception.\<close>

datatype failure = Exit1 string | Raised py_error

record pipeline_output =
  results :: "clustered_row list"
  cluster_enabled :: bool
  cluster_summaries :: "(string \<times> cluster_summary) list"

text \<open>
  The interest profile: the vectors of all documents, the index of the documents by id,
  and the sum of the vectors of the recent documents.
\<close>

definition interest_profile :: "doc list \<Rightarrow> doc list \<Rightarrow> py_error + vec" where
  "interest_profile docs recent_docs =
     (let vectors = tfidf_vectors docs;
          doc_index = doc_index_of docs
      in case vectors_at vectors doc_index recent_docs of
           Inl e \<Rightarrow> Inl e
         | Inr recent_vectors \<Rightarrow> aggregate_vector recent_vectors None)"

text \<open>
  The part of \<^verbatim>\<open>main\<close> between the two last checks: interest profile, scores, ranking
  and the result rows.
\<close>

definition compute_results ::
  "(int \<Rightarrow> py_error + string) \<Rightarrow> args \<Rightarrow> doc list \<Rightarrow> doc list \<Rightarrow> doc list
     \<Rightarrow> py_error + row list" where
  "compute_results local_date a docs recent_docs older_docs =
     (let vectors = tfidf_vectors docs;
          doc_index = doc_index_of docs
      in case interest_profile docs recent_docs of
           Inl e \<Rightarrow> Inl e
         | Inr interest \<Rightarrow>
             (case score_candidates interest vectors doc_index older_docs of
                Inl e \<Rightarrow> Inl e
              | Inr scored \<Rightarrow>
                  collect_results local_date a interest vectors doc_index {} []
                    (rank_scored scored)))"

text \<open>
  \<^verbatim>\<open>main\<close> from the reading filter to the value handed to the printers.  The options and
  the documents that the earlier filters left are parameters, and so are the local time
  zone and the clock that \<^verbatim>\<open>main\<close> reads with \<^verbatim>\<open>dt.datetime.now(dt.timezone.utc)\<close>.
\<close>

definition main_pipeline ::
  "args \<Rightarrow> string set \<Rightarrow> (string \<Rightarrow> bool) \<Rightarrow> (int \<Rightarrow> py_error + string) \<Rightarrow> int \<Rightarrow> doc list
     \<Rightarrow> failure + pipeline_output" where
  "main_pipeline a exclude_hosts exclude_patterns local_date now docs0 =
     (let docs = filter (\<lambda>d. is_reading_candidate d exclude_hosts exclude_patterns) docs0
      in if docs = [] then Inl (Exit1 ''No history rows after filtering.'')
         else
           case recency_cutoff now (recent_days a) of
             Inl e \<Rightarrow> Inl (Raised e)
           | Inr cutoff \<Rightarrow>
               let recent_docs = filter (is_recent cutoff) docs;
                   older_docs = filter (is_older cutoff) docs
               in if recent_docs = []
                  then Inl (Exit1 ''Not enough recent history to build an interest profile.'')
                  else
                    case compute_results local_date a docs recent_docs older_docs of
                      Inl e \<Rightarrow> Inl (Raised e)
                    | Inr rs \<Rightarrow>
                        if rs = [] then Inl (Exit1 ''No recommendations found.'')
                        else
                          let enabled = \<not> no_cluster a;
                              rows = map (assign_cluster enabled) rs
                          in Inr \<lparr>results = rows,
                                  cluster_enabled = enabled,
                                  cluster_summaries =
                                    (if enabled then build_cluster_summary rows 5 else [])\<rparr>)"

section \<open>Notions of the specification, for comparison with the code\<close>



text \<open>The two sums that \<^const>\<open>cosine\<close> accumulates, as list sums.\<close>

definition code_dot :: "vec \<Rightarrow> vec \<Rightarrow> real" where
  "code_dot a b = (\<Sum>(k, v) \<leftarrow> a. v * dict_get b k 0)"

definition norm_sq :: "vec \<Rightarrow> real" where
  "norm_sq v = (\<Sum>(k, w) \<leftarrow> v. w * w)"

text \<open>
  Term frequency, document frequency and inverse document frequency as the specification
  states them: occurrences of a token in one document, documents that contain the token,
  and \<open>ln ((N + 1) / (1 + df)) + 1\<close> for \<open>N\<close> documents.
\<close>

definition tf_of :: "doc \<Rightarrow> string \<Rightarrow> nat" where
  "tf_of d t = count_list (tokens d) t"

definition df_of :: "doc list \<Rightarrow> string \<Rightarrow> nat" where
  "df_of docs t = length (filter (\<lambda>d. t \<in> set (tokens d)) docs)"

definition idf_of :: "doc list \<Rightarrow> string \<Rightarrow> real" where
  "idf_of docs t = ln (real (length docs + 1) / real (1 + df_of docs t)) + 1"

text \<open>
  The product of a token's weight in the candidate vector and its weight in the interest
  vector, and the order in which \<^verbatim>\<open>explain_doc\<close> ranks two tokens: the larger product
  first, and among equal products the larger token text first.
\<close>

definition contribution :: "vec \<Rightarrow> vec \<Rightarrow> string \<Rightarrow> real" where
  "contribution interest_vec doc_vec t = dict_get doc_vec t 0 * dict_get interest_vec t 0"

definition outranks :: "vec \<Rightarrow> vec \<Rightarrow> string \<Rightarrow> string \<Rightarrow> bool" where
  "outranks interest_vec doc_vec t u \<longleftrightarrow>
     contribution interest_vec doc_vec u < contribution interest_vec doc_vec t
     \<or> (contribution interest_vec doc_vec u = contribution interest_vec doc_vec t \<and> u < t)"

text \<open>
  The explanation as the specification words it: the tokens with a positive product, by
  descending product, tokens with equal products in their insertion order, cut at
  \<open>topN\<close>.
\<close>

definition spec_explain :: "vec \<Rightarrow> vec \<Rightarrow> int \<Rightarrow> string list" where
  "spec_explain interest_vec doc_vec topn =
     (if topn \<le> 0 then []
      else take (nat topn)
             (py_sort_reverse_key (contribution interest_vec doc_vec)
                (filter (\<lambda>t. 0 < contribution interest_vec doc_vec t) (map fst doc_vec))))"

text \<open>The tokens of the candidate vector with a positive product, in insertion order.\<close>

definition positive_tokens :: "vec \<Rightarrow> vec \<Rightarrow> string list" where
  "positive_tokens interest_vec doc_vec =
     filter (\<lambda>t. 0 < contribution interest_vec doc_vec t) (map fst doc_vec)"

text \<open>The full ranking of which \<^const>\<open>explain_doc\<close> returns a prefix.\<close>

definition ranking :: "vec \<Rightarrow> vec \<Rightarrow> string list" where
  "ranking interest_vec doc_vec =
     map snd (py_sort_reverse_key (\<lambda>x. x)
       (map (\<lambda>t. (contribution interest_vec doc_vec t, t)) (positive_tokens interest_vec doc_vec)))"

text \<open>
  The candidate's own vector: the vector that \<^const>\<open>tfidf_vectors\<close> computes for this
  document among \<open>docs\<close>.
\<close>

definition own_vector :: "doc list \<Rightarrow> doc \<Rightarrow> vec" where
  "own_vector docs d = doc_vector (length docs) (document_frequency docs) d"

text \<open>
  The members of a cluster, the explanation tokens of its members (with repetitions), how
  often a token occurs among them, and the order of the summary: more frequent first, equal
  frequencies by ascending token text.
\<close>

definition members :: "clustered_row list \<Rightarrow> string \<Rightarrow> clustered_row list" where
  "members rows name = filter (\<lambda>r. cluster r = name) rows"

definition member_tokens :: "clustered_row list \<Rightarrow> string \<Rightarrow> string list" where
  "member_tokens rows name = concat (map why_tokens (members rows name))"

definition token_frequency :: "clustered_row list \<Rightarrow> string \<Rightarrow> string \<Rightarrow> nat" where
  "token_frequency rows name t = count_list (member_tokens rows name) t"

definition more_frequent :: "clustered_row list \<Rightarrow> string \<Rightarrow> string \<Rightarrow> string \<Rightarrow> bool" where
  "more_frequent rows name t u \<longleftrightarrow>
     token_frequency rows name u < token_frequency rows name t
     \<or> (token_frequency rows name u = token_frequency rows name t \<and> t < u)"

text \<open>
  The tokens of a list ranked as \<^const>\<open>summarize\<close> ranks the counted tokens of a cluster, and
  the entry that \<^verbatim>\<open>setdefault\<close> creates for a new cluster.
\<close>

definition token_ranking :: "string list \<Rightarrow> string list" where
  "token_ranking toks =
     map fst (sort_key (\<lambda>x. (- int (snd x), fst x)) (term_frequency toks))"

definition empty_info :: cluster_info where
  "empty_info = \<lparr>info_count = 0, info_tokens = []\<rparr>"

section \<open>The local date in a time zone of fixed offset\<close>

text \<open>
  The tables and the function \<^verbatim>\<open>_ord2ymd\<close> of Python's \<^verbatim>\<open>datetime\<close>: the year, month and
  day of a proleptic Gregorian ordinal, where day 1 is 0001-01-01.
\<close>

definition DAYS_IN_MONTH :: "int list" where
  "DAYS_IN_MONTH = [-1, 31, 28, 31, 30, 31, 30, 31, 31, 30, 31, 30, 31]"

definition DAYS_BEFORE_MONTH :: "int list" where
  "DAYS_BEFORE_MONTH = [-1, 0, 31, 59, 90, 120, 151, 181, 212, 243, 273, 304, 334]"

definition ord2ymd :: "int \<Rightarrow> int \<times> int \<times> int" where
  "ord2ymd ordinal =
     (let n = ordinal - 1;
          n400 = n div 146097; r400 = n mod 146097;
          n100 = r400 div 36524; r100 = r400 mod 36524;
          n4 = r100 div 1461; r4 = r100 mod 1461;
          n1 = r4 div 365; r1 = r4 mod 365;
          year = n400 * 400 + 1 + n100 * 100 + n4 * 4 + n1
      in if n1 = 4 \<or> n100 = 4 then (year - 1, 12, 31)
         else
           let leapyear = (n1 = 3 \<and> (n4 \<noteq> 24 \<or> n100 = 3));
               month = (r1 + 50) div 32;
               preceding = DAYS_BEFORE_MONTH ! nat month
                             + (if 2 < month \<and> leapyear then 1 else 0)
           in if r1 < preceding
              then (year, month - 1,
                    r1 - (preceding - (DAYS_IN_MONTH ! nat (month - 1)
                                        + (if month - 1 = 2 \<and> leapyear then 1 else 0))) + 1)
              else (year, month, r1 - preceding + 1))"

text \<open>\<^verbatim>\<open>strftime("%Y-%m-%d")\<close>, for a year of four digits.\<close>

definition digit :: "int \<Rightarrow> char" where
  "digit n = ''0123456789'' ! nat n"

definition strftime_Ymd :: "int \<times> int \<times> int \<Rightarrow> string" where
  "strftime_Ymd ymd =
     (case ymd of (y, m, d) \<Rightarrow>
        [digit (y div 1000), digit (y div 100 mod 10), digit (y div 10 mod 10), digit (y mod 10)]
        @ ''-'' @ [digit (m div 10), digit (m mod 10)]
        @ ''-'' @ [digit (d div 10), digit (d mod 10)])"

text \<open>
  \<^verbatim>\<open>last_visit.astimezone().strftime("%Y-%m-%d")\<close> on a machine whose local time zone has
  the fixed offset \<open>utcoffset\<close> (in seconds) from UTC, for a visit \<open>t\<close> microseconds after
  1601-01-01 UTC: the date of the day that holds the instant in that zone, or
  \<^verbatim>\<open>OverflowError\<close> when the day lies outside the years 1 to 9999.  The ordinal of
  1601-01-01 is 584389.
\<close>

definition fixed_offset_date :: "int \<Rightarrow> int \<Rightarrow> py_error + string" where
  "fixed_offset_date utcoffset t =
     (let day = (t + utcoffset * 1000000) div 86400000000
      in if day < - 584388 \<or> 3067671 \<le> day then Inl OverflowError
         else Inr (strftime_Ymd (ord2ymd (day + 584389))))"

section \<open>Notions of the specification: the ranking of a run and its dates\<close>



section \<open>Tokenizer: the regular expression finds the long maximal runs\<close>

declare maximal_runs.simps [simp del]

lemma maximal_runs_Nil: "maximal_runs P [] = []"
  by (simp add: maximal_runs.simps)

lemma maximal_runs_skip: "\<not> P c \<Longrightarrow> maximal_runs P (c # cs) = maximal_runs P cs"
  by (subst maximal_runs.simps, subst (2) maximal_runs.simps) simp

lemma maximal_runs_take:
  "P c \<Longrightarrow>
   maximal_runs P (c # cs) = takeWhile P (c # cs) # maximal_runs P (dropWhile P (c # cs))"
  by (subst maximal_runs.simps) simp

lemma short_run_dropped:
  assumes "P c" "length (takeWhile P (c # cs)) < 3"
  shows "filter (\<lambda>r. 3 \<le> length r) (maximal_runs P cs)
       = filter (\<lambda>r. 3 \<le> length r) (maximal_runs P (dropWhile P (c # cs)))"
proof (cases cs)
  case Nil
  with assms show ?thesis by simp
next
  case (Cons d ds)
  show ?thesis
  proof (cases "P d")
    case True
    with assms Cons show ?thesis
      by (simp add: maximal_runs_take)
  next
    case False
    with assms Cons show ?thesis by simp
  qed
qed

lemma findall_runs:
  "TOKEN_RE_findall s = filter (\<lambda>r. 3 \<le> length r) (maximal_runs is_token_char s)"
proof (induction s rule: TOKEN_RE_findall.induct)
  case 1
  show ?case by (simp add: maximal_runs_Nil)
next
  case (2 c cs)
  let ?m = "takeWhile is_token_char (c # cs)"
  show ?case
  proof (cases "is_token_char c")
    case False
    then have "\<not> 3 \<le> length ?m" by simp
    with 2 False show ?thesis by (simp add: maximal_runs_skip)
  next
    case tok: True
    show ?thesis
    proof (cases "3 \<le> length ?m")
      case True
      have "drop (length ?m) (c # cs) = dropWhile is_token_char (c # cs)"
        by (rule dropWhile_eq_drop [symmetric])
      with 2(1) [OF refl True] True tok show ?thesis
        by (simp add: maximal_runs_take del: takeWhile.simps dropWhile.simps)
    next
      case False
      then have short: "length ?m < 3" by simp
      have "TOKEN_RE_findall (c # cs) = TOKEN_RE_findall cs"
        using False by (simp del: takeWhile.simps)
      also have "\<dots> = filter (\<lambda>r. 3 \<le> length r) (maximal_runs is_token_char cs)"
        using 2(2) [OF refl False] .
      also have "\<dots> = filter (\<lambda>r. 3 \<le> length r)
                          (maximal_runs is_token_char (dropWhile is_token_char (c # cs)))"
        by (rule short_run_dropped [OF tok short])
      finally show ?thesis
        using tok False by (simp add: maximal_runs_take del: takeWhile.simps dropWhile.simps)
    qed
  qed
qed

lemma tokenize_example:
  "tokenize (Some ''The Quick Fox runs!'') = [''quick'', ''fox'', ''runs'']"
  by (simp add: lower_def lower_char_def is_token_char_def STOPWORDS_def)

text \<open>
  C7: \<^verbatim>\<open>tokenize\<close> returns the empty sequence for a null and for an empty text; for every
  text it returns, in order, the maximal runs of \<^verbatim>\<open>[a-z0-9]\<close> of the lower-cased text that
  have length at least 3 and are not stop words; and
  \<^verbatim>\<open>tokenize("The Quick Fox runs!")\<close> is \<^verbatim>\<open>["quick", "fox", "runs"]\<close>.
\<close>

theorem tokenize_spec:
  "tokenize None = []
   \<and> tokenize (Some []) = []
   \<and> tokenize (Some text) = spec_tokenize text
   \<and> tokenize (Some ''The Quick Fox runs!'') = [''quick'', ''fox'', ''runs'']"
proof -
  have "tokenize (Some text) = spec_tokenize text"
  proof (cases "text = []")
    case True
    then show ?thesis by (simp add: spec_tokenize_def lower_def maximal_runs_Nil)
  next
    case False
    then show ?thesis by (simp add: spec_tokenize_def findall_runs)
  qed
  then show ?thesis using tokenize_example by simp
qed

section \<open>Cosine similarity\<close>

lemma fold_dot: "fold (\<lambda>(k, v) dot. dot + v * dict_get b k 0) a s = s + code_dot a b"
  by (induction a arbitrary: s) (auto simp: code_dot_def)


lemma sum_squares: "sum_list (map (\<lambda>v. v * v) (map snd v)) = norm_sq v"
  by (induction v) (auto simp: norm_sq_def)

lemma norm_sq_nonneg: "0 \<le> norm_sq v"
  by (induction v) (auto simp: norm_sq_def)


lemma py_sum_fold: "fold (\<lambda>x s. s + x) xs s0 = s0 + (sum_list xs :: real)"
  by (induction xs arbitrary: s0) auto

lemma py_sum_exact: "py_sum (\<lambda>x. x) xs = sum_list xs"
  by (simp add: py_sum_def py_sum_fold)

lemma cosine_unfold:
  "cosine a b =
     (if a = [] \<or> b = [] \<or> norm_sq a = 0 \<or> norm_sq b = 0 then 0
      else code_dot a b / (sqrt (norm_sq a) * sqrt (norm_sq b)))"
  unfolding cosine_def cosine_with_def Let_def py_sum_exact fold_dot sum_squares by simp


lemma dict_get_present: "distinct (map fst d) \<Longrightarrow> (k, v) \<in> set d \<Longrightarrow> dict_get d k dflt = v"
  by (simp add: dict_get_def)










lemma code_dot_self: "distinct (map fst v) \<Longrightarrow> code_dot v v = norm_sq v"
proof -
  assume d: "distinct (map fst v)"
  have "map (\<lambda>(k, w). w * dict_get v k 0) v = map (\<lambda>(k, w). w * w) v"
    by (rule map_cong) (auto simp: dict_get_present [OF d])
  then show ?thesis unfolding code_dot_def norm_sq_def by (rule arg_cong)
qed

lemma norm_sq_zero_iff: "norm_sq v = 0 \<longleftrightarrow> (\<forall>(k, w) \<in> set v. w = 0)"
proof (induction v)
  case Nil
  show ?case by (simp add: norm_sq_def)
next
  case (Cons p v)
  obtain k w where p: "p = (k, w)" by (cases p)
  have "norm_sq (p # v) = w * w + norm_sq v" by (simp add: norm_sq_def p)
  moreover have "w * w + norm_sq v = 0 \<longleftrightarrow> w = 0 \<and> norm_sq v = 0"
    using norm_sq_nonneg [of v] by (smt (verit) mult_eq_0_iff zero_le_square)
  ultimately show ?case using Cons by (simp add: p)
qed

subsection \<open>Rounding to binary64\<close>

lemma pow2_powr: "pow2 k = 2 powr (of_int k)"
proof (cases "0 \<le> k")
  case True
  then have "2 powr (of_int k) = (2::real) powr (real (nat k))" by simp
  also have "\<dots> = 2 ^ nat k" by (simp add: powr_realpow)
  finally show ?thesis using True by (simp add: pow2_def)
next
  case False
  then have "2 powr (of_int k) = (2::real) powr (- real (nat (- k)))" by simp
  also have "\<dots> = 1 / 2 ^ nat (- k)" by (simp add: powr_minus powr_realpow divide_inverse)
  finally show ?thesis using False by (simp add: pow2_def)
qed

lemma pow2_pos: "0 < pow2 k"
  by (simp add: pow2_powr)

lemma floor_log2:
  assumes "pow2 e \<le> y" and "y < pow2 (e + 1)"
  shows "\<lfloor>log 2 y\<rfloor> = e"
proof -
  have y: "0 < y" using assms(1) pow2_pos [of e] by linarith
  have "of_int e \<le> log 2 y"
    using assms(1) y by (simp add: le_log_iff pow2_powr)
  moreover have "log 2 y < of_int e + 1"
    using assms(2) y by (simp add: log_less_iff pow2_powr)
  ultimately show ?thesis by (simp add: floor_eq_iff)
qed

lemma round_even_near:
  assumes "\<bar>r - of_int q\<bar> < 1 / 2"
  shows "round_even r = q"
proof (cases "of_int q \<le> r")
  case True
  with assms have "\<lfloor>r\<rfloor> = q" unfolding floor_eq_iff by linarith
  with assms True show ?thesis by (simp add: round_even_def)
next
  case False
  with assms have f: "\<lfloor>r\<rfloor> = q - 1" unfolding floor_eq_iff by auto
  have "1 / 2 < r - of_int (q - 1)" using assms False by simp
  with f show ?thesis by (simp add: round_even_def)
qed

lemma double_round_eq:
  assumes "pow2 e \<le> \<bar>x\<bar>" and "\<bar>x\<bar> < pow2 (e + 1)"
    and "\<bar>x / pow2 (e - 52) - of_int q\<bar> < 1 / 2"
  shows "double_round x = of_int q * pow2 (e - 52)"
proof -
  have "x \<noteq> 0" using assms(1) pow2_pos [of e] by auto
  moreover have "\<lfloor>log 2 \<bar>x\<bar>\<rfloor> = e" using assms(1,2) by (rule floor_log2)
  moreover have "round_even (x / pow2 (e - 52)) = q" using assms(3) by (rule round_even_near)
  ultimately show ?thesis by (simp add: double_round_def Let_def)
qed

lemma dr_1: "double_round 1 = 1"
  using double_round_eq [of 0 1 "2 ^ 52"] by (simp add: pow2_def)

lemma dr_2: "double_round 2 = 2"
  using double_round_eq [of 1 2 "2 ^ 52"] by (simp add: pow2_def)

lemma dr_sqrt2: "double_round (sqrt 2) = 6369051672525773 / 2 ^ 52"
proof -
  have lo: "(6369051672525773 - 1 / 2) / 2 ^ 52 < sqrt 2"
    by (rule real_less_rsqrt) (simp add: power2_eq_square)
  have hi: "sqrt 2 < (6369051672525773 + 1 / 2) / 2 ^ 52"
    by (rule real_less_lsqrt) (simp_all add: power2_eq_square)
  have 1: "pow2 0 \<le> \<bar>sqrt 2\<bar>" by (simp add: pow2_def)
  have 2: "\<bar>sqrt 2\<bar> < pow2 (0 + 1)"
    using real_less_lsqrt [of 2 2] by (simp add: pow2_def)
  have a: "6369051672525773 - 1 / 2 < sqrt 2 * 2 ^ 52"
    using lo by (simp add: field_simps)
  have b: "sqrt 2 * 2 ^ 52 < 6369051672525773 + 1 / 2"
    using hi by (simp add: field_simps)
  have "\<bar>sqrt 2 * 2 ^ 52 - 6369051672525773\<bar> < 1 / 2"
    using a b by linarith
  then have 3: "\<bar>sqrt 2 / pow2 (0 - 52) - of_int 6369051672525773\<bar> < 1 / 2"
    by (simp add: pow2_def)
  from double_round_eq [OF 1 2 3] show ?thesis by (simp add: pow2_def)
qed




lemma dr_sq2: "double_round (6369051672525773 / 2 ^ 52 * (6369051672525773 / 2 ^ 52))
             = 4503599627370497 / 2 ^ 51"
  using double_round_eq [of 1 "6369051672525773 / 2 ^ 52 * (6369051672525773 / 2 ^ 52)"
      4503599627370497]
  by (simp add: pow2_def)

lemma dr_q2: "double_round (2 / (4503599627370497 / 2 ^ 51)) = 9007199254740990 / 2 ^ 53"
  using double_round_eq [of "-1" "2 / (4503599627370497 / 2 ^ 51)" 9007199254740990]
  by (simp add: pow2_def)




lemma cosine_double_two:
  assumes "double_round (x * x) = xx" and "double_round (y * y) = yy"
    and "double_round xx = xx" and "double_round (xx + yy) = s"
    and "double_round (sqrt s) = n" and "n \<noteq> 0"
    and "double_round (n * n) = p" and "double_round (s / p) = c"
    and "k \<noteq> l"
  shows "cosine_double [(k, x), (l, y)] [(k, x), (l, y)] = c"
  using assms
  by (simp add: cosine_double_def cosine_with_def py_sum_def dict_get_def Let_def)

subsection \<open>The range of the cosine\<close>




subsection \<open>The cosine of a vector with itself\<close>

text \<open>
  C9, as stated, fails: in binary64 the cosine of \<^verbatim>\<open>{t0: 1.0, t1: 1.0}\<close> with itself is
  \<open>2 / (sqrt 2 * sqrt 2)\<close> with every operation rounded, which is \<^verbatim>\<open>1 - 2**-52\<close>
  (printed \<^verbatim>\<open>0.9999999999999998\<close>) and not 1.
\<close>

theorem cosine_self_counterexample:
  "cosine_double [(''t0'', 1), (''t1'', 1)] [(''t0'', 1), (''t1'', 1)] = 1 - 1 / 2 ^ 52"
proof -
  have sq: "double_round (1 * 1) = 1" and keep: "double_round 1 = 1"
    and sum: "double_round (1 + 1) = 2"
    by (simp_all add: dr_1 dr_2)
  have n: "(6369051672525773 / 2 ^ 52 :: real) \<noteq> 0" and k: "''t0'' \<noteq> ''t1''"
    by simp_all
  have "cosine_double [(''t0'', 1), (''t1'', 1)] [(''t0'', 1), (''t1'', 1)]
      = 9007199254740990 / 2 ^ 53"
    by (rule cosine_double_two [OF sq sq keep sum dr_sqrt2 n dr_sq2 dr_q2 k])
  then show ?thesis by simp
qed

text \<open>
  C9, amended: computed in exact arithmetic, for a term vector \<open>v\<close> with pairwise
  distinct tokens of which some weight is not zero, \<^verbatim>\<open>cosine(v, v)\<close> is 1.
\<close>

theorem cosine_self_amended:
  assumes "distinct (map fst v)" and "\<exists>(k, w) \<in> set v. w \<noteq> 0"
  shows "cosine v v = 1"
proof -
  from assms(2) have ne: "v \<noteq> []" by auto
  from assms(2) have nz: "norm_sq v \<noteq> 0" by (auto simp: norm_sq_zero_iff)
  then have "0 < norm_sq v" using norm_sq_nonneg [of v] by simp
  then have "sqrt (norm_sq v) * sqrt (norm_sq v) = norm_sq v" by simp
  with ne nz show ?thesis
    by (simp add: cosine_unfold code_dot_self [OF assms(1)])
qed

theorem cosine_self_amended_witness:
  "distinct (map fst [(''rust'', 2::real), (''memory'', 0)])
   \<and> (\<exists>(k, w) \<in> set [(''rust'', 2::real), (''memory'', 0)]. w \<noteq> 0)
   \<and> cosine [(''rust'', 2), (''memory'', 0)] [(''rust'', 2), (''memory'', 0)] = 1"
  using cosine_self_amended [of "[(''rust'', 2), (''memory'', 0)]"]
  by simp

section \<open>The vector space: \<^verbatim>\<open>tfidf_vectors\<close>\<close>

lemma dict_set_keys: "fst ` set (dict_set d k v) = insert k (fst ` set d)"
  by (simp add: dict_set_def dom_update)

lemma dict_set_distinct: "distinct (map fst d) \<Longrightarrow> distinct (map fst (dict_set d k v))"
  by (simp add: dict_set_def distinct_update)

lemma dict_get_set: "dict_get (dict_set d k v) k' dflt = (if k' = k then v else dict_get d k' dflt)"
  by (simp add: dict_set_def dict_get_def update_conv')

lemma dict_set_new: "k \<notin> fst ` set d \<Longrightarrow> dict_set d k v = d @ [(k, v)]"
  by (induction d) (auto simp: dict_set_def)

lemma map_of_dict_get: "k \<in> fst ` set d \<Longrightarrow> map_of d k = Some (dict_get d k dflt)"
  by (cases "map_of d k") (auto simp: dict_get_def map_of_eq_None_iff)

lemma count_fold_keys:
  "fst ` set (fold (\<lambda>t tf. dict_set tf t (dict_get tf t 0 + (1::nat))) toks tf)
     = fst ` set tf \<union> set toks"
  by (induction toks arbitrary: tf) (auto simp: dict_set_keys)

lemma count_fold_distinct:
  "distinct (map fst tf) \<Longrightarrow>
   distinct (map fst (fold (\<lambda>t tf. dict_set tf t (dict_get tf t 0 + (1::nat))) toks tf))"
  by (induction toks arbitrary: tf) (auto simp: dict_set_distinct)

lemma count_fold_get:
  "dict_get (fold (\<lambda>t tf. dict_set tf t (dict_get tf t 0 + (1::nat))) toks tf) t 0
     = dict_get tf t 0 + count_list toks t"
  by (induction toks arbitrary: tf) (auto simp: dict_get_set)

lemma term_frequency_keys: "fst ` set (term_frequency toks) = set toks"
  unfolding term_frequency_def count_fold_keys by simp

lemma term_frequency_distinct: "distinct (map fst (term_frequency toks))"
  unfolding term_frequency_def by (rule count_fold_distinct) simp

lemma term_frequency_get: "dict_get (term_frequency toks) t 0 = count_list toks t"
  unfolding term_frequency_def count_fold_get by (simp add: dict_get_def)

lemma term_frequency_member:
  "(t, c) \<in> set (term_frequency toks) \<Longrightarrow> t \<in> set toks \<and> c = count_list toks t"
  using term_frequency_keys [of toks] term_frequency_get [of toks t]
    dict_get_present [OF term_frequency_distinct, of t c toks 0]
  by force

lemma fold_dict_set_fresh:
  "distinct (map fst xs) \<Longrightarrow> fst ` set xs \<inter> fst ` set acc = {} \<Longrightarrow>
   fold (\<lambda>(t, c) vec. dict_set vec t (g t c)) xs acc = acc @ map (\<lambda>(t, c). (t, g t c)) xs"
proof (induction xs arbitrary: acc)
  case Nil
  show ?case by simp
next
  case (Cons p xs)
  obtain t c where p: "p = (t, c)" by (cases p)
  from Cons.prems p have fresh: "t \<notin> fst ` set acc" by auto
  have "fst ` set xs \<inter> fst ` set (acc @ [(t, g t c)]) = {}"
    using Cons.prems p by auto
  with Cons.IH [of "acc @ [(t, g t c)]"] Cons.prems(1) fresh p show ?case
    by (simp add: dict_set_new)
qed

lemma doc_vector_map:
  "doc_vector n df d = map (\<lambda>(t, c). (t, real c * idf n df t)) (term_frequency (tokens d))"
  unfolding doc_vector_def
  using fold_dict_set_fresh [OF term_frequency_distinct, of "tokens d" "[]" "\<lambda>t c. real c * idf n df t"]
  by simp

lemma doc_vector_keys: "map fst (doc_vector n df d) = map fst (term_frequency (tokens d))"
  by (simp add: doc_vector_map case_prod_unfold comp_def)

lemma doc_vector_lookup:
  assumes "t \<in> set (tokens d)"
  shows "map_of (doc_vector n df d) t = Some (real (count_list (tokens d) t) * idf n df t)"
proof -
  from assms have "t \<in> fst ` set (term_frequency (tokens d))"
    by (simp add: term_frequency_keys)
  then have "map_of (term_frequency (tokens d)) t = Some (count_list (tokens d) t)"
    using map_of_dict_get [of t "term_frequency (tokens d)" 0] by (simp add: term_frequency_get)
  then have "(t, count_list (tokens d) t) \<in> set (term_frequency (tokens d))"
    by (rule map_of_SomeD)
  then have "(t, real (count_list (tokens d) t) * idf n df t) \<in> set (doc_vector n df d)"
    by (force simp: doc_vector_map)
  moreover have "distinct (map fst (doc_vector n df d))"
    by (simp add: doc_vector_keys term_frequency_distinct)
  ultimately show ?thesis by simp
qed

lemma df_fold_get:
  "distinct ts \<Longrightarrow>
   (case fold (\<lambda>t df. df(t \<mapsto> (case df t of None \<Rightarrow> 0 | Some c \<Rightarrow> c) + 1)) ts df t of
      None \<Rightarrow> 0 | Some c \<Rightarrow> c)
   = (case df t of None \<Rightarrow> (0::nat) | Some c \<Rightarrow> c) + (if t \<in> set ts then 1 else 0)"
  by (induction ts arbitrary: df) auto

lemma df_count_doc_get:
  "(case df_count_doc df d t of None \<Rightarrow> 0 | Some c \<Rightarrow> c)
   = (case df t of None \<Rightarrow> 0 | Some c \<Rightarrow> c) + (if t \<in> set (tokens d) then 1 else 0)"
  unfolding df_count_doc_def using df_fold_get [of "remdups (tokens d)" df t] by simp

lemma document_frequency_fold:
  "(case fold (\<lambda>d df. df_count_doc df d) docs df t of None \<Rightarrow> 0 | Some c \<Rightarrow> c)
   = (case df t of None \<Rightarrow> 0 | Some c \<Rightarrow> c) + df_of docs t"
  by (induction docs arbitrary: df) (auto simp: df_of_def df_count_doc_get)

lemma document_frequency_get:
  "(case document_frequency docs t of None \<Rightarrow> 0 | Some c \<Rightarrow> c) = df_of docs t"
  by (simp add: document_frequency_def document_frequency_fold)

lemma idf_document_frequency: "idf (length docs) (document_frequency docs) t = idf_of docs t"
  by (simp add: idf_def idf_of_def document_frequency_get)

lemma tfidf_vectors_nth:
  "i < length docs \<Longrightarrow>
   tfidf_vectors docs ! i = doc_vector (length docs) (document_frequency docs) (docs ! i)"
  by (simp add: tfidf_vectors_def)

text \<open>
  C1: \<^verbatim>\<open>tfidf_vectors\<close> returns one vector per document, in the order of the documents;
  the tokens of the vector at a position are the tokens of the document there, and each
  such token \<open>t\<close> has the weight \<open>tf(t) * idf(t)\<close>, where \<open>tf(t)\<close> counts the
  occurrences of \<open>t\<close> in the document, \<open>idf(t) = ln ((N + 1) / (1 + df(t))) + 1\<close>,
  \<open>N\<close> is the number of documents and \<open>df(t)\<close> the number of documents that
  contain \<open>t\<close>, each counted once.
\<close>

theorem tfidf_vectors_spec:
  "length (tfidf_vectors docs) = length docs
   \<and> (\<forall>i < length docs.
        fst ` set (tfidf_vectors docs ! i) = set (tokens (docs ! i))
        \<and> (\<forall>t \<in> set (tokens (docs ! i)).
             map_of (tfidf_vectors docs ! i) t = Some (real (tf_of (docs ! i) t) * idf_of docs t)))"
proof (intro conjI allI impI ballI)
  show "length (tfidf_vectors docs) = length docs"
    by (simp add: tfidf_vectors_def)
next
  fix i assume i: "i < length docs"
  have "fst ` set (tfidf_vectors docs ! i) = set (map fst (tfidf_vectors docs ! i))"
    by simp
  also have "\<dots> = set (tokens (docs ! i))"
    unfolding tfidf_vectors_nth [OF i] doc_vector_keys
    using term_frequency_keys [of "tokens (docs ! i)"] by simp
  finally show "fst ` set (tfidf_vectors docs ! i) = set (tokens (docs ! i))" .
next
  fix i t assume i: "i < length docs" and t: "t \<in> set (tokens (docs ! i))"
  show "map_of (tfidf_vectors docs ! i) t = Some (real (tf_of (docs ! i) t) * idf_of docs t)"
    by (simp add: tfidf_vectors_nth [OF i] doc_vector_lookup [OF t] idf_document_frequency tf_of_def)
qed

theorem tfidf_vectors_spec_witness:
  "length (tfidf_vectors
      [\<lparr>doc_id = 1, url = ''https://a.example/rust'', title = ''Rust memory rust'',
          visit_count = 5, last_visit = Some 100, host = ''a.example'',
          tokens = [''rust'', ''memory'', ''rust'']\<rparr>,
       \<lparr>doc_id = 2, url = ''https://b.example/guide'', title = ''Rust guide'',
          visit_count = 2, last_visit = None, host = ''b.example'',
          tokens = [''rust'', ''guide'']\<rparr>]) = 2
   \<and> map_of (tfidf_vectors
      [\<lparr>doc_id = 1, url = ''https://a.example/rust'', title = ''Rust memory rust'',
          visit_count = 5, last_visit = Some 100, host = ''a.example'',
          tokens = [''rust'', ''memory'', ''rust'']\<rparr>,
       \<lparr>doc_id = 2, url = ''https://b.example/guide'', title = ''Rust guide'',
          visit_count = 2, last_visit = None, host = ''b.example'',
          tokens = [''rust'', ''guide'']\<rparr>] ! 0) ''memory''
     = Some (ln (3 / 2) + 1)
   \<and> map_of (tfidf_vectors
      [\<lparr>doc_id = 1, url = ''https://a.example/rust'', title = ''Rust memory rust'',
          visit_count = 5, last_visit = Some 100, host = ''a.example'',
          tokens = [''rust'', ''memory'', ''rust'']\<rparr>,
       \<lparr>doc_id = 2, url = ''https://b.example/guide'', title = ''Rust guide'',
          visit_count = 2, last_visit = None, host = ''b.example'',
          tokens = [''rust'', ''guide'']\<rparr>] ! 0) ''rust''
     = Some 2"
proof -
  let ?D = "[\<lparr>doc_id = 1, url = ''https://a.example/rust'', title = ''Rust memory rust'',
          visit_count = 5, last_visit = Some 100, host = ''a.example'',
          tokens = [''rust'', ''memory'', ''rust'']\<rparr>,
       \<lparr>doc_id = 2, url = ''https://b.example/guide'', title = ''Rust guide'',
          visit_count = 2, last_visit = None, host = ''b.example'',
          tokens = [''rust'', ''guide'']\<rparr>]"
  have i: "0 < length ?D" by simp
  have m: "''memory'' \<in> set (tokens (?D ! 0))" and r: "''rust'' \<in> set (tokens (?D ! 0))"
    by simp_all
  note spec = tfidf_vectors_spec [of ?D]
  from spec have "length (tfidf_vectors ?D) = 2" by simp
  moreover from spec i m
  have "map_of (tfidf_vectors ?D ! 0) ''memory''
      = Some (real (tf_of (?D ! 0) ''memory'') * idf_of ?D ''memory'')"
    by blast
  then have "map_of (tfidf_vectors ?D ! 0) ''memory'' = Some (ln (3 / 2) + 1)"
    by (simp add: tf_of_def idf_of_def df_of_def)
  moreover from spec i r
  have "map_of (tfidf_vectors ?D ! 0) ''rust''
      = Some (real (tf_of (?D ! 0) ''rust'') * idf_of ?D ''rust'')"
    by blast
  then have "map_of (tfidf_vectors ?D ! 0) ''rust'' = Some 2"
    by (simp add: tf_of_def idf_of_def df_of_def)
  ultimately show ?thesis by blast
qed

lemma df_of_le: "df_of docs t \<le> length docs"
  by (simp add: df_of_def)

lemma idf_of_ge_1: "1 \<le> idf_of docs t"
proof -
  have "real (1 + df_of docs t) \<le> real (length docs + 1)"
    using df_of_le [of docs t] by simp
  then have "1 \<le> real (length docs + 1) / real (1 + df_of docs t)"
    by (simp add: le_divide_eq)
  then have "0 \<le> ln (real (length docs + 1) / real (1 + df_of docs t))"
    by (rule ln_ge_zero)
  then show ?thesis by (simp add: idf_of_def)
qed

text \<open>
  C10: every weight stored in a vector that \<^verbatim>\<open>tfidf_vectors\<close> returns is strictly
  positive.
\<close>

theorem tfidf_weights_positive:
  "\<forall>v \<in> set (tfidf_vectors docs). \<forall>(t, w) \<in> set v. 0 < w"
proof (intro ballI)
  fix v p assume v: "v \<in> set (tfidf_vectors docs)" and p: "p \<in> set v"
  obtain t w where tw: "p = (t, w)" by (cases p)
  from v obtain d where d: "d \<in> set docs"
    and vd: "v = doc_vector (length docs) (document_frequency docs) d"
    by (auto simp: tfidf_vectors_def)
  from p tw vd obtain c where c: "(t, c) \<in> set (term_frequency (tokens d))"
    and w: "w = real c * idf (length docs) (document_frequency docs) t"
    by (auto simp: doc_vector_map)
  from term_frequency_member [OF c] have "0 < c"
    using count_list_0_iff [of "tokens d" t] by auto
  moreover have "0 < idf_of docs t"
    using idf_of_ge_1 [of docs t] by linarith
  ultimately have "0 < w"
    by (simp add: w idf_document_frequency)
  then show "case p of (t, w) \<Rightarrow> 0 < w" by (simp add: tw)
qed

theorem tfidf_weights_positive_witness:
  "list_all (list_all (\<lambda>(t, w). 0 < w))
     (tfidf_vectors
       [\<lparr>doc_id = 1, url = ''https://a.example/rust'', title = ''Rust memory rust'',
          visit_count = 5, last_visit = Some 100, host = ''a.example'',
          tokens = [''rust'', ''memory'', ''rust'']\<rparr>,
       \<lparr>doc_id = 2, url = ''https://b.example/guide'', title = ''Rust guide'',
          visit_count = 2, last_visit = None, host = ''b.example'',
          tokens = [''rust'', ''guide'']\<rparr>])"
  using tfidf_weights_positive
    [of "[\<lparr>doc_id = 1, url = ''https://a.example/rust'', title = ''Rust memory rust'',
          visit_count = 5, last_visit = Some 100, host = ''a.example'',
          tokens = [''rust'', ''memory'', ''rust'']\<rparr>,
       \<lparr>doc_id = 2, url = ''https://b.example/guide'', title = ''Rust guide'',
          visit_count = 2, last_visit = None, host = ''b.example'',
          tokens = [''rust'', ''guide'']\<rparr>]"]
  unfolding list_all_iff by blast

section \<open>Explanations: \<^verbatim>\<open>explain_doc\<close>\<close>

lemma py_sort_reverse_key_set: "set (py_sort_reverse_key f xs) = set xs"
  by (simp add: py_sort_reverse_key_def)

lemma py_sort_reverse_key_length: "length (py_sort_reverse_key f xs) = length xs"
  by (simp add: py_sort_reverse_key_def)

lemma py_sort_reverse_key_distinct: "distinct (py_sort_reverse_key f xs) = distinct xs"
  by (simp add: py_sort_reverse_key_def)

lemma py_sort_reverse_key_sorted:
  "sorted_wrt (\<lambda>x y. f y \<le> f x) (py_sort_reverse_key f xs)"
proof -
  have "sorted_wrt (\<lambda>x y. f x \<le> f y) (sort_key f (rev xs))"
    using sorted_sort_key [of f "rev xs"] by (simp add: sorted_map)
  then show ?thesis
    by (simp add: py_sort_reverse_key_def sorted_wrt_rev)
qed

lemma py_sort_reverse_key_stable:
  "filter (\<lambda>x. f x = k) (py_sort_reverse_key f xs) = filter (\<lambda>x. f x = k) xs"
  by (simp add: py_sort_reverse_key_def rev_filter [symmetric] sort_key_stable)

lemma sorted_wrt_distinct_strict:
  "sorted_wrt (\<lambda>x y. f y \<le> f x) xs \<Longrightarrow> distinct (map f xs) \<Longrightarrow>
   sorted_wrt (\<lambda>x y. f y < (f x :: 'k :: linorder)) xs"
proof (induction xs)
  case Nil
  show ?case by simp
next
  case (Cons a xs)
  have "f y < f a" if "y \<in> set xs" for y
  proof -
    from Cons.prems(1) that have "f y \<le> f a" by simp
    moreover from Cons.prems(2) that have "f y \<noteq> f a" by (auto simp: image_iff)
    ultimately show ?thesis by simp
  qed
  with Cons show ?case by simp
qed

lemma filter_map_cong:
  "\<forall>x \<in> set xs. g x = h x \<Longrightarrow> filter P (map g xs) = map h (filter (\<lambda>x. P (h x)) xs)"
  by (induction xs) auto

lemma contributions_eq:
  assumes "distinct (map fst doc_vec)"
  shows "filter (\<lambda>(contrib, token). 0 < contrib)
           (map (\<lambda>(token, weight). (weight * dict_get interest_vec token 0, token)) doc_vec)
       = map (\<lambda>t. (contribution interest_vec doc_vec t, t))
           (filter (\<lambda>t. 0 < contribution interest_vec doc_vec t) (map fst doc_vec))"
proof -
  let ?h = "\<lambda>p. (contribution interest_vec doc_vec (fst p), fst p)"
  have "\<forall>p \<in> set doc_vec.
          (case p of (token, weight) \<Rightarrow> (weight * dict_get interest_vec token 0, token)) = ?h p"
    by (auto simp: contribution_def dict_get_present [OF assms])
  then have "filter (\<lambda>(contrib, token). 0 < contrib)
           (map (\<lambda>(token, weight). (weight * dict_get interest_vec token 0, token)) doc_vec)
       = map ?h (filter (\<lambda>p. case ?h p of (contrib, token) \<Rightarrow> 0 < contrib) doc_vec)"
    by (rule filter_map_cong)
  also have "\<dots> = map (\<lambda>t. (contribution interest_vec doc_vec t, t))
           (filter (\<lambda>t. 0 < contribution interest_vec doc_vec t) (map fst doc_vec))"
    by (simp add: filter_map comp_def)
  finally show ?thesis .
qed

lemma explain_doc_ranking:
  assumes "distinct (map fst doc_vec)" and "0 < topn"
  shows "explain_doc interest_vec doc_vec topn = take (nat topn) (ranking interest_vec doc_vec)"
  using assms(2)
  by (simp add: explain_doc_def Let_def contributions_eq [OF assms(1)] py_slice_to_def
      ranking_def positive_tokens_def take_map)

lemma ranking_pairs:
  "py_sort_reverse_key (\<lambda>x. x)
       (map (\<lambda>t. (contribution interest_vec doc_vec t, t)) (positive_tokens interest_vec doc_vec))
   = map (\<lambda>t. (contribution interest_vec doc_vec t, t)) (ranking interest_vec doc_vec)"
proof -
  let ?S = "py_sort_reverse_key (\<lambda>x. x)
       (map (\<lambda>t. (contribution interest_vec doc_vec t, t)) (positive_tokens interest_vec doc_vec))"
  have "\<forall>x \<in> set ?S. x = (contribution interest_vec doc_vec (snd x), snd x)"
    by (auto simp: py_sort_reverse_key_set)
  then have "map (\<lambda>x. x) ?S = map (\<lambda>x. (contribution interest_vec doc_vec (snd x), snd x)) ?S"
    by (intro map_cong) auto
  then show ?thesis by (simp add: ranking_def comp_def)
qed

lemma ranking_set: "set (ranking interest_vec doc_vec) = set (positive_tokens interest_vec doc_vec)"
  by (simp add: ranking_def py_sort_reverse_key_set image_image)

lemma ranking_length:
  "length (ranking interest_vec doc_vec) = length (positive_tokens interest_vec doc_vec)"
  by (simp add: ranking_def py_sort_reverse_key_length)

lemma positive_tokens_distinct:
  "distinct (map fst doc_vec) \<Longrightarrow> distinct (positive_tokens interest_vec doc_vec)"
  by (simp add: positive_tokens_def)

lemma ranking_distinct:
  assumes "distinct (map fst doc_vec)"
  shows "distinct (ranking interest_vec doc_vec)"
proof -
  have "card (set (ranking interest_vec doc_vec)) = length (ranking interest_vec doc_vec)"
    using positive_tokens_distinct [OF assms, of interest_vec]
    by (simp add: ranking_set ranking_length distinct_card)
  then show ?thesis by (rule card_distinct)
qed

lemma ranking_sorted:
  assumes "distinct (map fst doc_vec)"
  shows "sorted_wrt (outranks interest_vec doc_vec) (ranking interest_vec doc_vec)"
proof -
  let ?g = "\<lambda>t. (contribution interest_vec doc_vec t, t)"
  let ?R = "ranking interest_vec doc_vec"
  have "sorted_wrt (\<lambda>x y. y \<le> x) (map ?g ?R)"
    using py_sort_reverse_key_sorted [of "\<lambda>x. x" "map ?g (positive_tokens interest_vec doc_vec)"]
    by (simp add: ranking_pairs)
  then have "sorted_wrt (\<lambda>t u. ?g u \<le> ?g t) ?R"
    by (simp add: sorted_wrt_map)
  moreover have "distinct (map ?g ?R)"
    using ranking_distinct [OF assms, of interest_vec] by (simp add: distinct_map inj_on_def)
  ultimately have "sorted_wrt (\<lambda>t u. ?g u < ?g t) ?R"
    by (rule sorted_wrt_distinct_strict)
  then show ?thesis
    by (rule sorted_wrt_mono_rel [rotated]) (auto simp: outranks_def)
qed

text \<open>
  C2, as stated, fails: with two tokens of equal product the code returns the larger
  token text first, not the token inserted first.
\<close>

theorem explain_doc_order_counterexample:
  "explain_doc [(''abc'', 1), (''abd'', 1)] [(''abc'', 1), (''abd'', 1)] 2 = [''abd'', ''abc'']
   \<and> spec_explain [(''abc'', 1), (''abd'', 1)] [(''abc'', 1), (''abd'', 1)] 2 = [''abc'', ''abd'']"
  by (simp add: explain_doc_def spec_explain_def contribution_def dict_get_def
      py_sort_reverse_key_def py_slice_to_def)

text \<open>
  C2, amended: for a candidate vector with pairwise distinct tokens, \<^verbatim>\<open>explain_doc\<close>
  returns the empty sequence when \<open>topN \<le> 0\<close> and never more than \<open>topN\<close> tokens;
  the tokens returned are distinct tokens of the candidate vector with a positive product,
  as many as \<open>topN\<close> allows, in descending order of the product, tokens with equal
  products in descending order of the token text; and every token with a positive product
  that is left out ranks below every token returned.
\<close>

theorem explain_doc_amended:
  assumes "distinct (map fst doc_vec)"
  shows "(topn \<le> 0 \<longrightarrow> explain_doc interest_vec doc_vec topn = [])
       \<and> length (explain_doc interest_vec doc_vec topn) \<le> nat topn
       \<and> length (explain_doc interest_vec doc_vec topn)
           = min (nat topn) (length (positive_tokens interest_vec doc_vec))
       \<and> distinct (explain_doc interest_vec doc_vec topn)
       \<and> set (explain_doc interest_vec doc_vec topn) \<subseteq> set (positive_tokens interest_vec doc_vec)
       \<and> sorted_wrt (outranks interest_vec doc_vec) (explain_doc interest_vec doc_vec topn)
       \<and> (\<forall>t \<in> set (positive_tokens interest_vec doc_vec)
                   - set (explain_doc interest_vec doc_vec topn).
            \<forall>u \<in> set (explain_doc interest_vec doc_vec topn).
              outranks interest_vec doc_vec u t)"
proof (cases "topn \<le> 0")
  case True
  then show ?thesis by (simp add: explain_doc_def)
next
  case False
  let ?R = "ranking interest_vec doc_vec"
  let ?n = "nat topn"
  from False have r: "explain_doc interest_vec doc_vec topn = take ?n ?R"
    by (simp add: explain_doc_ranking [OF assms])
  have len: "length (take ?n ?R) = min ?n (length (positive_tokens interest_vec doc_vec))"
    by (simp add: ranking_length min.commute)
  have dist: "distinct (take ?n ?R)"
    using ranking_distinct [OF assms] by (rule distinct_take)
  have sub: "set (take ?n ?R) \<subseteq> set (positive_tokens interest_vec doc_vec)"
    using set_take_subset [of ?n ?R] by (simp add: ranking_set)
  have "sorted_wrt (outranks interest_vec doc_vec) (take ?n ?R @ drop ?n ?R)"
    using ranking_sorted [OF assms] by simp
  then have sorted: "sorted_wrt (outranks interest_vec doc_vec) (take ?n ?R)"
    and below: "\<forall>u \<in> set (take ?n ?R). \<forall>t \<in> set (drop ?n ?R). outranks interest_vec doc_vec u t"
    unfolding sorted_wrt_append by blast+
  have rest: "t \<in> set (drop ?n ?R)"
    if "t \<in> set (positive_tokens interest_vec doc_vec) - set (take ?n ?R)" for t
  proof -
    from that have "t \<in> set (take ?n ?R @ drop ?n ?R)" by (simp add: ranking_set)
    with that show ?thesis unfolding set_append by blast
  qed
  from False len dist sub sorted below rest show ?thesis
    unfolding r by auto
qed

theorem explain_doc_amended_witness:
  "distinct (map fst [(''abc'', 1::real), (''abd'', 1)])
   \<and> length (explain_doc [(''abc'', 1), (''abd'', 1)] [(''abc'', 1), (''abd'', 1)] 1) \<le> nat 1
   \<and> distinct (explain_doc [(''abc'', 1), (''abd'', 1)] [(''abc'', 1), (''abd'', 1)] 1)
   \<and> sorted_wrt (outranks [(''abc'', 1), (''abd'', 1)] [(''abc'', 1), (''abd'', 1)])
         (explain_doc [(''abc'', 1), (''abd'', 1)] [(''abc'', 1), (''abd'', 1)] 1)"
proof -
  have h: "distinct (map fst [(''abc'', 1::real), (''abd'', 1)])" by simp
  from explain_doc_amended [OF h, of 1 "[(''abc'', 1), (''abd'', 1)]"] h show ?thesis
    by blast
qed

section \<open>The ranking stage\<close>

lemma index_fold_other:
  "k \<notin> doc_id ` set docs \<Longrightarrow>
   fold (\<lambda>(i, d) m. m(doc_id d \<mapsto> i)) (enumerate n docs) m k = m k"
  by (induction docs arbitrary: n m) auto

lemma index_fold_found:
  "k \<in> doc_id ` set docs \<Longrightarrow>
   \<exists>i. fold (\<lambda>(i, d) m. m(doc_id d \<mapsto> i)) (enumerate n docs) m k = Some i
       \<and> n \<le> i \<and> i < n + length docs \<and> doc_id (docs ! (i - n)) = k"
proof (induction docs arbitrary: n m)
  case Nil
  then show ?case by simp
next
  case (Cons d docs)
  let ?F = "\<lambda>(i, d) m. m(doc_id d \<mapsto> i)"
  let ?m = "m(doc_id d \<mapsto> n)"
  have step: "fold ?F (enumerate n (d # docs)) m = fold ?F (enumerate (Suc n) docs) ?m"
    by (simp del: fun_upd_apply)
  show ?case
  proof (cases "k \<in> doc_id ` set docs")
    case True
    from Cons.IH [OF True, of "Suc n" ?m] obtain i
      where i: "fold ?F (enumerate (Suc n) docs) ?m k = Some i"
        "Suc n \<le> i" "i < Suc n + length docs" "doc_id (docs ! (i - Suc n)) = k"
      by blast
    from i(2) have nth: "(d # docs) ! (i - n) = docs ! (i - Suc n)"
      by (simp add: nth_Cons')
    have "fold ?F (enumerate n (d # docs)) m k = Some i"
      using i(1) by (simp only: step)
    moreover have "n \<le> i" "i < n + length (d # docs)" using i(2,3) by simp_all
    moreover have "doc_id ((d # docs) ! (i - n)) = k" using i(4) nth by simp
    ultimately show ?thesis by blast
  next
    case False
    with Cons.prems have k: "k = doc_id d" by auto
    have "fold ?F (enumerate (Suc n) docs) ?m k = ?m k"
      using False by (rule index_fold_other)
    also have "?m k = Some n" using k by simp
    finally have "fold ?F (enumerate n (d # docs)) m k = Some n"
      by (simp only: step)
    moreover have "doc_id ((d # docs) ! (n - n)) = k" using k by simp
    moreover have "n \<le> n" "n < n + length (d # docs)" by simp_all
    ultimately show ?thesis by blast
  qed
qed

lemma doc_index_of_found:
  assumes "d \<in> set docs"
  shows "\<exists>i. doc_index_of docs (doc_id d) = Some i \<and> i < length docs
            \<and> doc_id (docs ! i) = doc_id d"
  using index_fold_found [of "doc_id d" docs 0 Map.empty] assms
  by (auto simp: doc_index_of_def)

lemma vector_at_own:
  assumes "distinct (map doc_id docs)" and "d \<in> set docs"
  shows "vector_at (tfidf_vectors docs) (doc_index_of docs) d = Inr (own_vector docs d)"
proof -
  from doc_index_of_found [OF assms(2)] obtain i
    where i: "doc_index_of docs (doc_id d) = Some i" "i < length docs"
      "doc_id (docs ! i) = doc_id d"
    by blast
  from assms(2) obtain j where j: "j < length docs" "docs ! j = d"
    by (auto simp: in_set_conv_nth)
  have "map doc_id docs ! i = map doc_id docs ! j"
    using i(2,3) j by simp
  moreover have "i < length (map doc_id docs)" "j < length (map doc_id docs)"
    using i(2) j(1) by simp_all
  ultimately have "i = j"
    using assms(1) nth_eq_iff_index_eq [of "map doc_id docs" i j] by blast
  with j have "docs ! i = d" by simp
  with i(2) have "tfidf_vectors docs ! i = own_vector docs d"
    by (simp add: tfidf_vectors_def own_vector_def)
  moreover have "length (tfidf_vectors docs) = length docs"
    by (simp add: tfidf_vectors_def)
  ultimately show ?thesis using i(1,2) by (simp add: vector_at_def)
qed

lemma score_candidates_own:
  "\<forall>d \<in> set ds. vector_at vectors doc_index d = Inr (f d) \<Longrightarrow>
   score_candidates interest vectors doc_index ds
     = Inr (filter (\<lambda>(s, d). 0 < s) (map (\<lambda>d. (cosine interest (f d), d)) ds))"
  by (induction ds) auto

lemma own_vector_eq:
  "own_vector docs d
     = map (\<lambda>(t, n). (t, real n * idf_of docs t)) (term_frequency (tokens d))"
  by (simp add: own_vector_def doc_vector_map idf_document_frequency)

lemma rank_scored_three:
  "s1 < s2 \<Longrightarrow> rank_scored [(s1, x), (s1, y), (s2, w)] = [(s2, w), (s1, x), (s1, y)]"
  by (simp add: rank_scored_def py_sort_reverse_key_def)

lemma cosine_single_first:
  "0 < a \<Longrightarrow> k \<noteq> l \<Longrightarrow> cosine [(k, 1)] [(k, a), (l, b)] = a / sqrt (a * a + b * b)"
proof -
  assume a: "0 < a" and kl: "k \<noteq> l"
  have "0 < a * a + b * b" using a by (simp add: add_pos_nonneg)
  then have "a * a + b * b \<noteq> 0" by linarith
  with kl show ?thesis
    by (simp add: cosine_unfold code_dot_def norm_sq_def dict_get_def)
qed

lemma cosine_single_second:
  "0 < a \<Longrightarrow> k \<noteq> l \<Longrightarrow> cosine [(k, 1)] [(l, b), (k, a)] = a / sqrt (a * a + b * b)"
proof -
  assume a: "0 < a" and kl: "k \<noteq> l"
  have "0 < b * b + a * a" using a by (simp add: add_nonneg_pos)
  then have "b * b + a * a \<noteq> 0" by linarith
  with kl show ?thesis
    by (simp add: cosine_unfold code_dot_def norm_sq_def dict_get_def add.commute)
qed

lemma cosine_single_absent:
  "k \<noteq> l \<Longrightarrow> cosine [(k, 1)] [(l, b)] = 0"
  by (simp add: cosine_unfold code_dot_def norm_sq_def dict_get_def)

lemma cosine_single_less:
  assumes "0 < (c::real)"
  shows "c / sqrt (c * c + 1 * 1) < (2 * c) / sqrt ((2 * c) * (2 * c) + 1 * 1)"
    and "0 < c / sqrt (c * c + 1 * 1)"
proof -
  let ?A = "sqrt (c * c + 1)" and ?B = "sqrt (4 * (c * c) + 1)"
  have A: "0 < ?A" using assms by (simp add: add_pos_pos)
  have B: "0 < ?B" using assms by (simp add: add_pos_pos)
  have "4 * (c * c) + 1 < 4 * (c * c) + 4" by simp
  then have "?B < sqrt (4 * (c * c) + 4)" by (rule real_sqrt_less_mono)
  also have "sqrt (4 * (c * c) + 4) = 2 * ?A"
  proof (rule real_sqrt_unique)
    have "?A * ?A = c * c + 1" using assms by (simp add: add_nonneg_nonneg)
    then show "(2 * ?A)\<^sup>2 = 4 * (c * c) + 4"
      by (simp add: power2_eq_square algebra_simps)
    show "0 \<le> 2 * ?A" using A by simp
  qed
  finally have "c * ?B < c * (2 * ?A)" using assms by (simp add: mult_strict_left_mono)
  then have "c / ?A < (2 * c) / ?B"
    using A B by (simp add: field_simps)
  then show "c / sqrt (c * c + 1 * 1) < (2 * c) / sqrt ((2 * c) * (2 * c) + 1 * 1)"
    by (simp add: mult.assoc mult.left_commute)
  show "0 < c / sqrt (c * c + 1 * 1)" using assms A by simp
qed

text \<open>
  C3: for documents with pairwise distinct ids, and candidates taken from the documents
  that were vectorized, the ranking stage runs without a failed lookup; it keeps exactly
  the candidates whose own vector has a positive cosine against the interest vector, each
  with that score and in the original order, and then sorts them so that the scores
  descend and results with equal scores stay in that original order.
\<close>

theorem ranking_stage:
  assumes "distinct (map doc_id docs)" and "set older_docs \<subseteq> set docs"
  shows "\<exists>scored.
           score_candidates interest (tfidf_vectors docs) (doc_index_of docs) older_docs = Inr scored
         \<and> scored = filter (\<lambda>(s, d). 0 < s)
                      (map (\<lambda>d. (cosine interest (own_vector docs d), d)) older_docs)
         \<and> set (rank_scored scored) = set scored
         \<and> length (rank_scored scored) = length scored
         \<and> sorted_wrt (\<lambda>x y. fst y \<le> fst x) (rank_scored scored)
         \<and> (\<forall>s. filter (\<lambda>x. fst x = s) (rank_scored scored) = filter (\<lambda>x. fst x = s) scored)"
proof -
  let ?scored = "filter (\<lambda>(s, d). 0 < s)
                   (map (\<lambda>d. (cosine interest (own_vector docs d), d)) older_docs)"
  have "\<forall>d \<in> set older_docs.
          vector_at (tfidf_vectors docs) (doc_index_of docs) d = Inr (own_vector docs d)"
    using assms vector_at_own by blast
  then have 1: "score_candidates interest (tfidf_vectors docs) (doc_index_of docs) older_docs
              = Inr ?scored"
    by (rule score_candidates_own)
  have 4: "set (rank_scored ?scored) = set ?scored" "length (rank_scored ?scored) = length ?scored"
    by (simp_all add: rank_scored_def py_sort_reverse_key_set py_sort_reverse_key_length)
  have 5: "sorted_wrt (\<lambda>x y. fst y \<le> fst x) (rank_scored ?scored)"
    unfolding rank_scored_def by (rule py_sort_reverse_key_sorted)
  have 6: "\<forall>s. filter (\<lambda>x. fst x = s) (rank_scored ?scored) = filter (\<lambda>x. fst x = s) ?scored"
    unfolding rank_scored_def by (simp add: py_sort_reverse_key_stable)
  from 1 4 5 6 show ?thesis by blast
qed

theorem ranking_stage_witness:
  "distinct (map doc_id
    [\<lparr>doc_id = 1, url = ''https://a.example/rust-guide'', title = ''Rust guide'',
      visit_count = 3, last_visit = Some 13000000000000000, host = ''a.example'',
      tokens = [''rust'', ''guide'']\<rparr>,
     \<lparr>doc_id = 2, url = ''https://b.example/guide'', title = ''Guide'',
      visit_count = 1, last_visit = Some 13000000000000001, host = ''b.example'',
      tokens = [''guide'']\<rparr>,
     \<lparr>doc_id = 3, url = ''https://c.example/guide-rust'', title = ''Guide rust'',
      visit_count = 2, last_visit = None, host = ''c.example'',
      tokens = [''guide'', ''rust'']\<rparr>,
     \<lparr>doc_id = 4, url = ''https://d.example/rust'', title = ''Rust rust guide'',
      visit_count = 7, last_visit = Some 13000000000000002, host = ''d.example'',
      tokens = [''rust'', ''rust'', ''guide'']\<rparr>])
   \<and> (\<exists>sX sW.
         score_candidates [(''rust'', 1)]
           (tfidf_vectors
    [\<lparr>doc_id = 1, url = ''https://a.example/rust-guide'', title = ''Rust guide'',
      visit_count = 3, last_visit = Some 13000000000000000, host = ''a.example'',
      tokens = [''rust'', ''guide'']\<rparr>,
     \<lparr>doc_id = 2, url = ''https://b.example/guide'', title = ''Guide'',
      visit_count = 1, last_visit = Some 13000000000000001, host = ''b.example'',
      tokens = [''guide'']\<rparr>,
     \<lparr>doc_id = 3, url = ''https://c.example/guide-rust'', title = ''Guide rust'',
      visit_count = 2, last_visit = None, host = ''c.example'',
      tokens = [''guide'', ''rust'']\<rparr>,
     \<lparr>doc_id = 4, url = ''https://d.example/rust'', title = ''Rust rust guide'',
      visit_count = 7, last_visit = Some 13000000000000002, host = ''d.example'',
      tokens = [''rust'', ''rust'', ''guide'']\<rparr>])
           (doc_index_of
    [\<lparr>doc_id = 1, url = ''https://a.example/rust-guide'', title = ''Rust guide'',
      visit_count = 3, last_visit = Some 13000000000000000, host = ''a.example'',
      tokens = [''rust'', ''guide'']\<rparr>,
     \<lparr>doc_id = 2, url = ''https://b.example/guide'', title = ''Guide'',
      visit_count = 1, last_visit = Some 13000000000000001, host = ''b.example'',
      tokens = [''guide'']\<rparr>,
     \<lparr>doc_id = 3, url = ''https://c.example/guide-rust'', title = ''Guide rust'',
      visit_count = 2, last_visit = None, host = ''c.example'',
      tokens = [''guide'', ''rust'']\<rparr>,
     \<lparr>doc_id = 4, url = ''https://d.example/rust'', title = ''Rust rust guide'',
      visit_count = 7, last_visit = Some 13000000000000002, host = ''d.example'',
      tokens = [''rust'', ''rust'', ''guide'']\<rparr>])
    [\<lparr>doc_id = 1, url = ''https://a.example/rust-guide'', title = ''Rust guide'',
      visit_count = 3, last_visit = Some 13000000000000000, host = ''a.example'',
      tokens = [''rust'', ''guide'']\<rparr>,
     \<lparr>doc_id = 2, url = ''https://b.example/guide'', title = ''Guide'',
      visit_count = 1, last_visit = Some 13000000000000001, host = ''b.example'',
      tokens = [''guide'']\<rparr>,
     \<lparr>doc_id = 3, url = ''https://c.example/guide-rust'', title = ''Guide rust'',
      visit_count = 2, last_visit = None, host = ''c.example'',
      tokens = [''guide'', ''rust'']\<rparr>,
     \<lparr>doc_id = 4, url = ''https://d.example/rust'', title = ''Rust rust guide'',
      visit_count = 7, last_visit = Some 13000000000000002, host = ''d.example'',
      tokens = [''rust'', ''rust'', ''guide'']\<rparr>]
         = Inr [(sX, \<lparr>doc_id = 1, url = ''https://a.example/rust-guide'', title = ''Rust guide'',
      visit_count = 3, last_visit = Some 13000000000000000, host = ''a.example'',
      tokens = [''rust'', ''guide'']\<rparr>),
                (sX, \<lparr>doc_id = 3, url = ''https://c.example/guide-rust'', title = ''Guide rust'',
      visit_count = 2, last_visit = None, host = ''c.example'',
      tokens = [''guide'', ''rust'']\<rparr>),
                (sW, \<lparr>doc_id = 4, url = ''https://d.example/rust'', title = ''Rust rust guide'',
      visit_count = 7, last_visit = Some 13000000000000002, host = ''d.example'',
      tokens = [''rust'', ''rust'', ''guide'']\<rparr>)]
         \<and> sX < sW
         \<and> rank_scored
              [(sX, \<lparr>doc_id = 1, url = ''https://a.example/rust-guide'', title = ''Rust guide'',
      visit_count = 3, last_visit = Some 13000000000000000, host = ''a.example'',
      tokens = [''rust'', ''guide'']\<rparr>),
               (sX, \<lparr>doc_id = 3, url = ''https://c.example/guide-rust'', title = ''Guide rust'',
      visit_count = 2, last_visit = None, host = ''c.example'',
      tokens = [''guide'', ''rust'']\<rparr>),
               (sW, \<lparr>doc_id = 4, url = ''https://d.example/rust'', title = ''Rust rust guide'',
      visit_count = 7, last_visit = Some 13000000000000002, host = ''d.example'',
      tokens = [''rust'', ''rust'', ''guide'']\<rparr>)]
           = [(sW, \<lparr>doc_id = 4, url = ''https://d.example/rust'', title = ''Rust rust guide'',
      visit_count = 7, last_visit = Some 13000000000000002, host = ''d.example'',
      tokens = [''rust'', ''rust'', ''guide'']\<rparr>),
              (sX, \<lparr>doc_id = 1, url = ''https://a.example/rust-guide'', title = ''Rust guide'',
      visit_count = 3, last_visit = Some 13000000000000000, host = ''a.example'',
      tokens = [''rust'', ''guide'']\<rparr>),
              (sX, \<lparr>doc_id = 3, url = ''https://c.example/guide-rust'', title = ''Guide rust'',
      visit_count = 2, last_visit = None, host = ''c.example'',
      tokens = [''guide'', ''rust'']\<rparr>)])"
proof -
  let ?X = "\<lparr>doc_id = 1, url = ''https://a.example/rust-guide'', title = ''Rust guide'',
      visit_count = 3, last_visit = Some 13000000000000000, host = ''a.example'',
      tokens = [''rust'', ''guide'']\<rparr>"
  let ?Z = "\<lparr>doc_id = 2, url = ''https://b.example/guide'', title = ''Guide'',
      visit_count = 1, last_visit = Some 13000000000000001, host = ''b.example'',
      tokens = [''guide'']\<rparr>"
  let ?Y = "\<lparr>doc_id = 3, url = ''https://c.example/guide-rust'', title = ''Guide rust'',
      visit_count = 2, last_visit = None, host = ''c.example'',
      tokens = [''guide'', ''rust'']\<rparr>"
  let ?W = "\<lparr>doc_id = 4, url = ''https://d.example/rust'', title = ''Rust rust guide'',
      visit_count = 7, last_visit = Some 13000000000000002, host = ''d.example'',
      tokens = [''rust'', ''rust'', ''guide'']\<rparr>"
  let ?D = "[?X, ?Z, ?Y, ?W]"
  let ?I = "[(''rust'', 1::real)]"
  define c :: real where "c = ln (5 / 4) + 1"
  have c: "0 < c" unfolding c_def by (simp add: add_nonneg_pos)
  define sX where "sX = c / sqrt (c * c + 1 * 1)"
  define sW where "sW = (2 * c) / sqrt ((2 * c) * (2 * c) + 1 * 1)"
  have less: "sX < sW" and pos: "0 < sX"
    unfolding sX_def sW_def using cosine_single_less [OF c] by simp_all
  have tf: "term_frequency [''rust'', ''guide''] = [(''rust'', 1), (''guide'', 1)]"
    "term_frequency [''guide''] = [(''guide'', 1)]"
    "term_frequency [''guide'', ''rust''] = [(''guide'', 1), (''rust'', 1)]"
    "term_frequency [''rust'', ''rust'', ''guide''] = [(''rust'', 2), (''guide'', 1)]"
    by (simp_all add: term_frequency_def dict_set_def dict_get_def)
  have idf: "idf_of ?D ''rust'' = c" "idf_of ?D ''guide'' = 1"
    by (simp_all add: idf_of_def df_of_def c_def)
  have vX: "own_vector ?D ?X = [(''rust'', c), (''guide'', 1)]"
    and vZ: "own_vector ?D ?Z = [(''guide'', 1)]"
    and vY: "own_vector ?D ?Y = [(''guide'', 1), (''rust'', c)]"
    and vW: "own_vector ?D ?W = [(''rust'', 2 * c), (''guide'', 1)]"
    by (simp_all add: own_vector_eq tf idf)
  have cX: "cosine ?I (own_vector ?D ?X) = sX"
    unfolding vX sX_def by (rule cosine_single_first [OF c]) simp
  have cZ: "cosine ?I (own_vector ?D ?Z) = 0"
    unfolding vZ by (rule cosine_single_absent) simp
  have cY: "cosine ?I (own_vector ?D ?Y) = sX"
    unfolding vY sX_def by (rule cosine_single_second [OF c]) simp
  have c2: "0 < 2 * c" using c by simp
  have cW: "cosine ?I (own_vector ?D ?W) = sW"
    unfolding vW sW_def by (rule cosine_single_first [OF c2]) simp
  have h1: "distinct (map doc_id ?D)" by simp
  have h2: "set ?D \<subseteq> set ?D" by simp
  from ranking_stage [OF h1 h2, of ?I] obtain scored
    where run: "score_candidates ?I (tfidf_vectors ?D) (doc_index_of ?D) ?D = Inr scored"
      and eq: "scored = filter (\<lambda>(s, d). 0 < s)
                      (map (\<lambda>d. (cosine ?I (own_vector ?D d), d)) ?D)"
    by blast
  have "0 < sW" using less pos by simp
  with pos have scored: "scored = [(sX, ?X), (sX, ?Y), (sW, ?W)]"
    unfolding eq by (simp add: cX cZ cY cW del: distinct.simps)
  have ranked: "rank_scored [(sX, ?X), (sX, ?Y), (sW, ?W)] = [(sW, ?W), (sX, ?X), (sX, ?Y)]"
    using less by (rule rank_scored_three)
  have "score_candidates ?I (tfidf_vectors ?D) (doc_index_of ?D) ?D
          = Inr [(sX, ?X), (sX, ?Y), (sW, ?W)]
        \<and> sX < sW
        \<and> rank_scored [(sX, ?X), (sX, ?Y), (sW, ?W)] = [(sW, ?W), (sX, ?X), (sX, ?Y)]"
    using run scored less ranked by simp
  then have "\<exists>sX sW.
        score_candidates ?I (tfidf_vectors ?D) (doc_index_of ?D) ?D
          = Inr [(sX, ?X), (sX, ?Y), (sW, ?W)]
        \<and> sX < sW
        \<and> rank_scored [(sX, ?X), (sX, ?Y), (sW, ?W)] = [(sW, ?W), (sX, ?X), (sX, ?Y)]"
    by blast
  with h1 show ?thesis by (rule conjI)
qed

section \<open>The pipeline: running out of data\<close>

text \<open>
  What the three checks of \<^verbatim>\<open>main\<close> do: no document after the reading filter, no recent
  document once the cutoff exists, and no result row each end the run with a message of
  their own; a cutoff that cannot be computed ends it with the exception.
\<close>

lemma main_pipeline_exits:
  assumes "docs = filter (\<lambda>d. is_reading_candidate d exclude_hosts exclude_patterns) docs0"
  shows "(docs = [] \<longrightarrow>
            main_pipeline a exclude_hosts exclude_patterns local_date now docs0
              = Inl (Exit1 ''No history rows after filtering.''))
       \<and> (\<forall>cutoff. docs \<noteq> [] \<and> recency_cutoff now (recent_days a) = Inr cutoff
              \<and> filter (is_recent cutoff) docs = [] \<longrightarrow>
            main_pipeline a exclude_hosts exclude_patterns local_date now docs0
              = Inl (Exit1 ''Not enough recent history to build an interest profile.''))
       \<and> (\<forall>cutoff. docs \<noteq> [] \<and> recency_cutoff now (recent_days a) = Inr cutoff
              \<and> filter (is_recent cutoff) docs \<noteq> []
              \<and> compute_results local_date a docs (filter (is_recent cutoff) docs)
                    (filter (is_older cutoff) docs) = Inr [] \<longrightarrow>
            main_pipeline a exclude_hosts exclude_patterns local_date now docs0
              = Inl (Exit1 ''No recommendations found.''))
       \<and> (docs \<noteq> [] \<and> recency_cutoff now (recent_days a) = Inl OverflowError \<longrightarrow>
            main_pipeline a exclude_hosts exclude_patterns local_date now docs0
              = Inl (Raised OverflowError))
       \<and> distinct [''No history rows after filtering.'',
                   ''Not enough recent history to build an interest profile.'',
                   ''No recommendations found.'']"
  using assms by (simp add: main_pipeline_def Let_def del: filter_filter)

text \<open>
  C6 asks that a run in which no document falls inside the recency window ends with the
  message for that cause and never with an exception.  The code does not do so for every
  window: with \<^verbatim>\<open>--recent-days -3000000\<close> and one document left by the filters, the
  cutoff \<^verbatim>\<open>now - dt.timedelta(days=-3000000)\<close> lies after the year 9999, the subtraction
  raises \<^verbatim>\<open>OverflowError\<close>, and the run ends with that exception although the document
  is not inside the window.
\<close>

theorem recent_days_overflow:
  "main_pipeline
      \<lparr>limit = 15, recent_days = - 3000000, dedupe_host = False, explain_top = 5,
        no_cluster = False\<rparr>
      {} (\<lambda>s. False) (\<lambda>t. Inr ''2012-12-11'') 13400000000000000
      [\<lparr>doc_id = 2, url = ''https://b.example/bread'', title = ''Bread baking'',
        visit_count = 2, last_visit = Some 13000000000000000, host = ''b.example'',
        tokens = [''bread'', ''baking'']\<rparr>]
     = Inl (Raised OverflowError)
   \<and> filter (\<lambda>d. is_reading_candidate d {} (\<lambda>s. False))
       [\<lparr>doc_id = 2, url = ''https://b.example/bread'', title = ''Bread baking'',
        visit_count = 2, last_visit = Some 13000000000000000, host = ''b.example'',
        tokens = [''bread'', ''baking'']\<rparr>] \<noteq> []
   \<and> filter (is_recent (13400000000000000 + 3000000 * 86400000000))
       [\<lparr>doc_id = 2, url = ''https://b.example/bread'', title = ''Bread baking'',
        visit_count = 2, last_visit = Some 13000000000000000, host = ''b.example'',
        tokens = [''bread'', ''baking'']\<rparr>] = []"
  by (simp add: main_pipeline_def is_reading_candidate_def recency_cutoff_def is_recent_def)

section \<open>Cluster labels and summaries\<close>

lemma add_row_keys: "fst ` set (add_row clusters r) = insert (cluster r) (fst ` set clusters)"
  by (simp add: add_row_def Let_def dict_set_keys)

lemma add_row_distinct: "distinct (map fst clusters) \<Longrightarrow> distinct (map fst (add_row clusters r))"
  by (simp add: add_row_def Let_def dict_set_distinct)

lemma add_row_get:
  "dict_get (add_row clusters r) name empty_info =
     (if name = cluster r
      then \<lparr>info_count = info_count (dict_get clusters name empty_info) + 1,
            info_tokens =
              fold (\<lambda>t toks. dict_set toks t (dict_get toks t 0 + 1)) (why_tokens r)
                (info_tokens (dict_get clusters name empty_info))\<rparr>
      else dict_get clusters name empty_info)"
  by (simp add: add_row_def Let_def dict_get_set empty_info_def)

lemma clusters_keys:
  "fst ` set (fold (\<lambda>r clusters. add_row clusters r) rows cl) = fst ` set cl \<union> cluster ` set rows"
  by (induction rows arbitrary: cl) (auto simp: add_row_keys)

lemma clusters_distinct:
  "distinct (map fst cl) \<Longrightarrow> distinct (map fst (fold (\<lambda>r clusters. add_row clusters r) rows cl))"
  by (induction rows arbitrary: cl) (auto simp: add_row_distinct)

lemma clusters_get:
  "dict_get (fold (\<lambda>r clusters. add_row clusters r) rows cl) name empty_info =
     \<lparr>info_count = info_count (dict_get cl name empty_info) + length (members rows name),
      info_tokens =
        fold (\<lambda>t toks. dict_set toks t (dict_get toks t 0 + 1)) (member_tokens rows name)
          (info_tokens (dict_get cl name empty_info))\<rparr>"
proof (induction rows arbitrary: cl)
  case Nil
  show ?case by (simp add: members_def member_tokens_def)
next
  case (Cons r rows)
  show ?case
  proof (cases "name = cluster r")
    case True
    then have m: "members (r # rows) name = r # members rows name"
      by (simp add: members_def)
    then have t: "member_tokens (r # rows) name = why_tokens r @ member_tokens rows name"
      by (simp add: member_tokens_def)
    from True have c: "cluster r = name" by simp
    show ?thesis
      by (simp add: Cons.IH add_row_get m t c)
  next
    case False
    then have "members (r # rows) name = members rows name"
      by (simp add: members_def)
    then have "member_tokens (r # rows) name = member_tokens rows name"
      by (simp add: member_tokens_def)
    with False \<open>members (r # rows) name = members rows name\<close> show ?thesis
      by (simp add: Cons.IH add_row_get)
  qed
qed

lemma clusters_of_rows:
  "dict_get (fold (\<lambda>r clusters. add_row clusters r) rows []) name empty_info =
     \<lparr>info_count = length (members rows name),
      info_tokens = term_frequency (member_tokens rows name)\<rparr>"
  unfolding clusters_get term_frequency_def by (simp add: dict_get_def empty_info_def)

lemma build_cluster_summary_map:
  "build_cluster_summary rows topn =
     map (\<lambda>(name, info). (name, summarize info topn))
       (fold (\<lambda>r clusters. add_row clusters r) rows [])"
proof -
  have "distinct (map fst (fold (\<lambda>r clusters. add_row clusters r) rows []))"
    by (rule clusters_distinct) simp
  from fold_dict_set_fresh [OF this, of "[]" "\<lambda>name info. summarize info topn"]
  show ?thesis by (simp add: build_cluster_summary_def Let_def)
qed

lemma build_cluster_summary_keys:
  "fst ` set (build_cluster_summary rows topn) = cluster ` set rows"
proof -
  have "fst ` set (build_cluster_summary rows topn)
      = fst ` set (fold (\<lambda>r clusters. add_row clusters r) rows [])"
    unfolding build_cluster_summary_map by force
  then show ?thesis by (simp add: clusters_keys)
qed

lemma build_cluster_summary_lookup:
  assumes "name \<in> cluster ` set rows"
  shows "map_of (build_cluster_summary rows topn) name
       = Some (summarize \<lparr>info_count = length (members rows name),
                          info_tokens = term_frequency (member_tokens rows name)\<rparr> topn)"
proof -
  let ?cl = "fold (\<lambda>r clusters. add_row clusters r) rows []"
  let ?info = "\<lparr>info_count = length (members rows name),
                info_tokens = term_frequency (member_tokens rows name)\<rparr>"
  have d: "distinct (map fst ?cl)" by (rule clusters_distinct) simp
  from assms have "name \<in> fst ` set ?cl" by (simp add: clusters_keys)
  then have "map_of ?cl name = Some (dict_get ?cl name empty_info)"
    by (rule map_of_dict_get)
  then have "(name, ?info) \<in> set ?cl"
    unfolding clusters_of_rows by (rule map_of_SomeD)
  then have "(name, summarize ?info topn) \<in> set (build_cluster_summary rows topn)"
    unfolding build_cluster_summary_map by force
  moreover have "distinct (map fst (build_cluster_summary rows topn))"
    using d unfolding build_cluster_summary_map by (simp add: case_prod_unfold comp_def)
  ultimately show ?thesis by simp
qed

lemma summarize_ranking:
  "0 \<le> topn \<Longrightarrow>
   summarize \<lparr>info_count = n, info_tokens = term_frequency toks\<rparr> topn
     = \<lparr>count = n, top_tokens = take (nat topn) (token_ranking toks)\<rparr>"
  by (simp add: summarize_def Let_def py_slice_to_def token_ranking_def take_map)

lemma sorted_wrt_strict:
  "sorted_wrt R xs \<Longrightarrow> distinct xs \<Longrightarrow>
   (\<And>x y. x \<in> set xs \<Longrightarrow> y \<in> set xs \<Longrightarrow> R x y \<Longrightarrow> x \<noteq> y \<Longrightarrow> Q x y) \<Longrightarrow>
   sorted_wrt Q xs"
  by (induction xs) auto

lemma token_ranking_set: "set (token_ranking toks) = set toks"
  by (simp add: token_ranking_def term_frequency_keys)

lemma token_ranking_length: "length (token_ranking toks) = card (set toks)"
proof -
  have "length (token_ranking toks) = length (map fst (term_frequency toks))"
    by (simp add: token_ranking_def)
  also have "\<dots> = card (set (map fst (term_frequency toks)))"
    using term_frequency_distinct [of toks] by (rule distinct_card [symmetric])
  also have "\<dots> = card (set toks)"
    by (simp add: term_frequency_keys)
  finally show ?thesis .
qed

lemma token_ranking_distinct: "distinct (token_ranking toks)"
  by (rule card_distinct) (simp add: token_ranking_set token_ranking_length)

lemma token_ranking_sorted:
  "sorted_wrt (\<lambda>t u. count_list toks u < count_list toks t
                   \<or> (count_list toks u = count_list toks t \<and> t < u))
     (token_ranking toks)"
proof -
  let ?K = "\<lambda>x :: string \<times> nat. (- int (snd x), fst x)"
  let ?S = "sort_key ?K (term_frequency toks)"
  have "sorted_wrt (\<lambda>x y. ?K x \<le> ?K y) ?S"
    using sorted_sort_key [of ?K "term_frequency toks"] by (simp add: sorted_map)
  moreover have "?K x \<le> ?K y \<Longrightarrow>
        (- int (count_list toks (fst x)), fst x) \<le> (- int (count_list toks (fst y)), fst y)"
    if "x \<in> set ?S" "y \<in> set ?S" for x y
  proof -
    from that have "(fst x, snd x) \<in> set (term_frequency toks)"
      "(fst y, snd y) \<in> set (term_frequency toks)" by simp_all
    then have "snd x = count_list toks (fst x)" "snd y = count_list toks (fst y)"
      using term_frequency_member by blast+
    then show "?K x \<le> ?K y \<Longrightarrow>
        (- int (count_list toks (fst x)), fst x) \<le> (- int (count_list toks (fst y)), fst y)"
      by simp
  qed
  ultimately have "sorted_wrt (\<lambda>x y. (- int (count_list toks (fst x)), fst x)
                                \<le> (- int (count_list toks (fst y)), fst y)) ?S"
    by (rule sorted_wrt_mono_rel [rotated])
  then have "sorted_wrt (\<lambda>t u. (- int (count_list toks t), t) \<le> (- int (count_list toks u), u))
               (token_ranking toks)"
    by (simp add: token_ranking_def sorted_wrt_map)
  then show ?thesis
    using token_ranking_distinct
    by (rule sorted_wrt_strict) (auto simp: less_eq_prod_def)
qed

lemma cluster_summary_ranked:
  assumes "0 \<le> topn" and "name \<in> cluster ` set rows"
  shows "\<exists>s. map_of (build_cluster_summary rows topn) name = Some s
           \<and> count s = length (members rows name)
           \<and> distinct (top_tokens s)
           \<and> set (top_tokens s) \<subseteq> set (member_tokens rows name)
           \<and> length (top_tokens s) = min (nat topn) (card (set (member_tokens rows name)))
           \<and> sorted_wrt (more_frequent rows name) (top_tokens s)
           \<and> (\<forall>t \<in> set (member_tokens rows name) - set (top_tokens s).
                 \<forall>u \<in> set (top_tokens s). more_frequent rows name u t)"
proof -
  let ?T = "member_tokens rows name"
  let ?R = "token_ranking ?T"
  let ?n = "nat topn"
  let ?s = "\<lparr>count = length (members rows name), top_tokens = take ?n ?R\<rparr>"
  have look: "map_of (build_cluster_summary rows topn) name = Some ?s"
    by (simp add: build_cluster_summary_lookup [OF assms(2)] summarize_ranking [OF assms(1)])
  have mf: "more_frequent rows name =
      (\<lambda>t u. count_list ?T u < count_list ?T t \<or> (count_list ?T u = count_list ?T t \<and> t < u))"
    by (intro ext) (simp add: more_frequent_def token_frequency_def)
  have "sorted_wrt (more_frequent rows name) (take ?n ?R @ drop ?n ?R)"
    using token_ranking_sorted [of ?T] by (simp add: mf)
  then have sorted: "sorted_wrt (more_frequent rows name) (take ?n ?R)"
    and below: "\<forall>u \<in> set (take ?n ?R). \<forall>t \<in> set (drop ?n ?R). more_frequent rows name u t"
    unfolding sorted_wrt_append by blast+
  have rest: "t \<in> set (drop ?n ?R)" if "t \<in> set ?T - set (take ?n ?R)" for t
  proof -
    from that have "t \<in> set (take ?n ?R @ drop ?n ?R)" by (simp add: token_ranking_set)
    with that show ?thesis unfolding set_append by blast
  qed
  have dist: "distinct (take ?n ?R)"
    using token_ranking_distinct by (rule distinct_take)
  have sub: "set (take ?n ?R) \<subseteq> set ?T"
    using set_take_subset [of ?n ?R] by (simp add: token_ranking_set)
  have len: "length (take ?n ?R) = min ?n (card (set ?T))"
    by (simp add: token_ranking_length min.commute)
  from look dist sub len sorted below rest show ?thesis
    by (intro exI [of _ ?s]) auto
qed

lemma assign_cluster_fields:
  "why_tokens (assign_cluster en r) = why_tokens r"
  "row_doc (assign_cluster en r) = row_doc r"
  "score (assign_cluster en r) = score r"
  "cluster (assign_cluster en r) =
     (if en \<and> why_tokens r \<noteq> [] then hd (why_tokens r)
      else if host (row_doc r) \<noteq> [] then host (row_doc r)
      else ''other'')"
  by (simp_all add: assign_cluster_def row.defs clustered_row.defs)

lemma explain_doc_head:
  assumes "distinct (map fst doc_vec)" and "explain_doc interest_vec doc_vec topn \<noteq> []"
  shows "hd (explain_doc interest_vec doc_vec topn) \<in> set (positive_tokens interest_vec doc_vec)
       \<and> (\<forall>u \<in> set (positive_tokens interest_vec doc_vec).
             contribution interest_vec doc_vec u
               \<le> contribution interest_vec doc_vec (hd (explain_doc interest_vec doc_vec topn)))"
proof -
  let ?R = "ranking interest_vec doc_vec"
  from assms(2) have pos: "0 < topn" by (auto simp: explain_doc_def split: if_splits)
  then have e: "explain_doc interest_vec doc_vec topn = take (nat topn) ?R"
    by (rule explain_doc_ranking [OF assms(1)])
  with assms(2) obtain x xs where R: "?R = x # xs" by (cases ?R) auto
  from pos have hd: "hd (explain_doc interest_vec doc_vec topn) = x"
    by (simp add: e R take_Cons')
  have "sorted_wrt (outranks interest_vec doc_vec) (x # xs)"
    using ranking_sorted [OF assms(1), of interest_vec] by (simp add: R)
  then have "\<forall>u \<in> set xs. contribution interest_vec doc_vec u \<le> contribution interest_vec doc_vec x"
    by (auto simp: outranks_def)
  moreover have "set (positive_tokens interest_vec doc_vec) = insert x (set xs)"
    using ranking_set [of interest_vec doc_vec] by (simp add: R)
  ultimately show ?thesis by (auto simp: hd)
qed

lemma format_row_Inr:
  "format_row local_date s d why = Inr r \<Longrightarrow> row_doc r = d \<and> why_tokens r = why \<and> score r = s"
  by (auto simp: format_row_def split: sum.splits option.splits)

lemma collect_results_rows:
  assumes "\<forall>(s, d) \<in> set ranked. vector_at vectors doc_index d = Inr (f d)"
    and "collect_results local_date a interest vectors doc_index seen_hosts acc ranked = Inr rs"
    and "\<forall>r \<in> set acc. why_tokens r = explain_doc interest (f (row_doc r)) (explain_top a)"
  shows "\<forall>r \<in> set rs. why_tokens r = explain_doc interest (f (row_doc r)) (explain_top a)"
  using assms
proof (induction ranked arbitrary: seen_hosts acc)
  case Nil
  then show ?case by simp
next
  case (Cons p ranked)
  obtain s d where p: "p = (s, d)" by (cases p)
  from Cons.prems(1) p have v: "vector_at vectors doc_index d = Inr (f d)"
    and rest: "\<forall>(s, d) \<in> set ranked. vector_at vectors doc_index d = Inr (f d)"
    by simp_all
  show ?case
  proof (cases "dedupe_host a \<and> host d \<in> seen_hosts")
    case True
    with Cons.prems(2) p
    have "collect_results local_date a interest vectors doc_index seen_hosts acc ranked = Inr rs"
      by simp
    from Cons.IH [OF rest this Cons.prems(3)] show ?thesis .
  next
    case False
    with Cons.prems(2) p v obtain r
      where r: "format_row local_date s d (explain_doc interest (f d) (explain_top a)) = Inr r"
      by (auto split: sum.splits)
    let ?acc = "acc @ [r]"
    have acc: "\<forall>r \<in> set ?acc. why_tokens r = explain_doc interest (f (row_doc r)) (explain_top a)"
      using Cons.prems(3) format_row_Inr [OF r] by auto
    show ?thesis
    proof (cases "limit a \<le> int (length ?acc)")
      case True
      with Cons.prems(2) p False v r have "rs = ?acc" by (simp add: Let_def)
      with acc show ?thesis by simp
    next
      case lim: False
      with Cons.prems(2) p False v r
      have "collect_results local_date a interest vectors doc_index (insert (host d) seen_hosts)
              ?acc ranked = Inr rs"
        by (simp add: Let_def)
      from Cons.IH [OF rest this acc] show ?thesis .
    qed
  qed
qed

lemma compute_results_rows:
  assumes "distinct (map doc_id docs)" and "set older_docs \<subseteq> set docs"
    and "compute_results local_date a docs recent_docs older_docs = Inr rs"
  shows "\<exists>interest. interest_profile docs recent_docs = Inr interest
           \<and> (\<forall>r \<in> set rs.
                 why_tokens r
                   = explain_doc interest (own_vector docs (row_doc r)) (explain_top a))"
proof -
  from assms(3) obtain interest scored
    where ip: "interest_profile docs recent_docs = Inr interest"
      and sc: "score_candidates interest (tfidf_vectors docs) (doc_index_of docs) older_docs
               = Inr scored"
      and cr: "collect_results local_date a interest (tfidf_vectors docs) (doc_index_of docs) {} []
             (rank_scored scored) = Inr rs"
    by (auto simp: compute_results_def Let_def split: sum.splits)
  from ranking_stage [OF assms(1,2), of interest] sc
  have eq: "scored = filter (\<lambda>(s, d). 0 < s)
                      (map (\<lambda>d. (cosine interest (own_vector docs d), d)) older_docs)"
    and perm: "set (rank_scored scored) = set scored"
    by auto
  have "\<forall>(s, d) \<in> set (rank_scored scored).
          vector_at (tfidf_vectors docs) (doc_index_of docs) d = Inr (own_vector docs d)"
  proof (clarify)
    fix s d assume "(s, d) \<in> set (rank_scored scored)"
    then have "(s, d) \<in> set scored" using perm by simp
    then have "d \<in> set older_docs" unfolding eq by auto
    with assms(2) have "d \<in> set docs" by blast
    with assms(1) show "vector_at (tfidf_vectors docs) (doc_index_of docs) d
                        = Inr (own_vector docs d)"
      by (rule vector_at_own)
  qed
  from collect_results_rows [OF this cr] ip show ?thesis by auto
qed

lemma own_vector_distinct: "distinct (map fst (own_vector docs d))"
  by (simp add: own_vector_def doc_vector_keys term_frequency_distinct)

lemma main_pipeline_Inr:
  assumes "main_pipeline a exclude_hosts exclude_patterns local_date now docs0 = Inr out"
  shows "\<exists>cutoff rs.
           recency_cutoff now (recent_days a) = Inr cutoff
         \<and> compute_results local_date a
               (filter (\<lambda>d. is_reading_candidate d exclude_hosts exclude_patterns) docs0)
               (filter (is_recent cutoff)
                  (filter (\<lambda>d. is_reading_candidate d exclude_hosts exclude_patterns) docs0))
               (filter (is_older cutoff)
                  (filter (\<lambda>d. is_reading_candidate d exclude_hosts exclude_patterns) docs0))
             = Inr rs
         \<and> rs \<noteq> []
         \<and> results out = map (assign_cluster (\<not> no_cluster a)) rs
         \<and> cluster_enabled out = (\<not> no_cluster a)
         \<and> cluster_summaries out =
               (if \<not> no_cluster a then build_cluster_summary (results out) 5 else [])"
proof -
  let ?docs = "filter (\<lambda>d. is_reading_candidate d exclude_hosts exclude_patterns) docs0"
  from assms have ne: "?docs \<noteq> []"
    by (auto simp: main_pipeline_def Let_def split: if_splits)
  with assms obtain cutoff where c: "recency_cutoff now (recent_days a) = Inr cutoff"
    by (auto simp: main_pipeline_def Let_def split: sum.splits)
  let ?recent = "filter (is_recent cutoff) ?docs" and ?older = "filter (is_older cutoff) ?docs"
  from assms ne c have r: "?recent \<noteq> []"
    by (auto simp: main_pipeline_def Let_def simp del: filter_filter split: if_splits)
  with assms ne c obtain rs where rs: "compute_results local_date a ?docs ?recent ?older = Inr rs"
    by (auto simp: main_pipeline_def Let_def simp del: filter_filter split: sum.splits)
  from assms ne c r rs have "rs \<noteq> []"
    and "out = \<lparr>results = map (assign_cluster (\<not> no_cluster a)) rs,
                 cluster_enabled = \<not> no_cluster a,
                 cluster_summaries =
                   (if \<not> no_cluster a
                    then build_cluster_summary (map (assign_cluster (\<not> no_cluster a)) rs) 5
                    else [])\<rparr>"
    by (auto simp: main_pipeline_def Let_def simp del: filter_filter split: if_splits)
  with c rs show ?thesis by auto
qed

text \<open>
  C8: every result of a run gets a cluster label: when clustering is enabled and the result
  has an explanation token, the label is the first explanation token, which is a token of
  positive contribution of the candidate's own vector that no other token exceeds in
  contribution; otherwise the label is the host of the document, or \<^verbatim>\<open>other\<close> when the host
  is empty. When clustering is enabled the summaries have exactly the labels of the results
  as keys, and the summary of a label reports the number of its members and the five most
  frequent explanation tokens of its members (all of them when there are fewer), the more
  frequent first and equal frequencies in ascending token text; when clustering is disabled
  there is no summary. Documents have pairwise distinct ids.
\<close>

theorem clustering:
  assumes "main_pipeline a exclude_hosts exclude_patterns local_date now docs0 = Inr out"
    and "distinct (map doc_id docs0)"
  shows "\<exists>docs cutoff interest.
           docs = filter (\<lambda>d. is_reading_candidate d exclude_hosts exclude_patterns) docs0
         \<and> recency_cutoff now (recent_days a) = Inr cutoff
         \<and> interest_profile docs (filter (is_recent cutoff) docs) = Inr interest
         \<and> (\<forall>r \<in> set (results out).
               why_tokens r
                 = explain_doc interest (own_vector docs (row_doc r)) (explain_top a)
               \<and> (cluster_enabled out \<and> why_tokens r \<noteq> [] \<longrightarrow>
                     cluster r = hd (why_tokens r)
                     \<and> cluster r \<in> set (positive_tokens interest (own_vector docs (row_doc r)))
                     \<and> (\<forall>u \<in> set (positive_tokens interest (own_vector docs (row_doc r))).
                           contribution interest (own_vector docs (row_doc r)) u
                             \<le> contribution interest (own_vector docs (row_doc r)) (cluster r)))
               \<and> (\<not> (cluster_enabled out \<and> why_tokens r \<noteq> []) \<longrightarrow>
                     cluster r = (if host (row_doc r) = [] then ''other'' else host (row_doc r))))
         \<and> cluster_enabled out = (\<not> no_cluster a)
         \<and> (\<not> cluster_enabled out \<longrightarrow> cluster_summaries out = [])
         \<and> (cluster_enabled out \<longrightarrow>
               fst ` set (cluster_summaries out) = cluster ` set (results out)
               \<and> (\<forall>name \<in> cluster ` set (results out).
                     \<exists>s. map_of (cluster_summaries out) name = Some s
                       \<and> count s = length (members (results out) name)
                       \<and> distinct (top_tokens s)
                       \<and> set (top_tokens s) \<subseteq> set (member_tokens (results out) name)
                       \<and> length (top_tokens s)
                           = min 5 (card (set (member_tokens (results out) name)))
                       \<and> sorted_wrt (more_frequent (results out) name) (top_tokens s)
                       \<and> (\<forall>t \<in> set (member_tokens (results out) name) - set (top_tokens s).
                             \<forall>u \<in> set (top_tokens s). more_frequent (results out) name u t)))"
proof -
  let ?docs = "filter (\<lambda>d. is_reading_candidate d exclude_hosts exclude_patterns) docs0"
  from main_pipeline_Inr [OF assms(1)] obtain cutoff rs
    where cut: "recency_cutoff now (recent_days a) = Inr cutoff"
      and rs: "compute_results local_date a ?docs (filter (is_recent cutoff) ?docs)
                 (filter (is_older cutoff) ?docs) = Inr rs"
      and res: "results out = map (assign_cluster (\<not> no_cluster a)) rs"
      and en: "cluster_enabled out = (\<not> no_cluster a)"
      and sums: "cluster_summaries out =
               (if \<not> no_cluster a then build_cluster_summary (results out) 5 else [])"
    by blast
  have d: "distinct (map doc_id ?docs)"
    using assms(2) by (rule distinct_map_filter)
  have sub: "set (filter (is_older cutoff) ?docs) \<subseteq> set ?docs" by auto
  from compute_results_rows [OF d sub rs] obtain interest
    where ip: "interest_profile ?docs (filter (is_recent cutoff) ?docs) = Inr interest"
      and why: "\<forall>r \<in> set rs.
           why_tokens r = explain_doc interest (own_vector ?docs (row_doc r)) (explain_top a)"
    by blast
  have label: "why_tokens r
                 = explain_doc interest (own_vector ?docs (row_doc r)) (explain_top a)
               \<and> (cluster_enabled out \<and> why_tokens r \<noteq> [] \<longrightarrow>
                     cluster r = hd (why_tokens r)
                     \<and> cluster r \<in> set (positive_tokens interest (own_vector ?docs (row_doc r)))
                     \<and> (\<forall>u \<in> set (positive_tokens interest (own_vector ?docs (row_doc r))).
                           contribution interest (own_vector ?docs (row_doc r)) u
                             \<le> contribution interest (own_vector ?docs (row_doc r)) (cluster r)))
               \<and> (\<not> (cluster_enabled out \<and> why_tokens r \<noteq> []) \<longrightarrow>
                     cluster r = (if host (row_doc r) = [] then ''other'' else host (row_doc r)))"
    if "r \<in> set (results out)" for r
  proof -
    from that res obtain r0 where r0: "r0 \<in> set rs" "r = assign_cluster (\<not> no_cluster a) r0"
      by auto
    let ?v = "own_vector ?docs (row_doc r)"
    have rd: "row_doc r = row_doc r0" by (simp add: r0(2) assign_cluster_fields)
    from why r0(1) have w0: "why_tokens r0 = explain_doc interest ?v (explain_top a)"
      by (simp add: rd)
    have w: "why_tokens r = explain_doc interest ?v (explain_top a)"
      by (simp add: r0(2) assign_cluster_fields w0 [unfolded rd])
    have 1: "cluster r = hd (why_tokens r)
             \<and> cluster r \<in> set (positive_tokens interest ?v)
             \<and> (\<forall>u \<in> set (positive_tokens interest ?v).
                   contribution interest ?v u \<le> contribution interest ?v (cluster r))"
      if "cluster_enabled out \<and> why_tokens r \<noteq> []"
    proof -
      from that have "cluster r = hd (why_tokens r0)"
        by (simp add: r0(2) assign_cluster_fields en)
      then have c: "cluster r = hd (explain_doc interest ?v (explain_top a))"
        using w0 by simp
      from that w have "explain_doc interest ?v (explain_top a) \<noteq> []" by simp
      from explain_doc_head [OF own_vector_distinct this] c w show ?thesis by simp
    qed
    have 2: "cluster r = (if host (row_doc r) = [] then ''other'' else host (row_doc r))"
      if "\<not> (cluster_enabled out \<and> why_tokens r \<noteq> [])"
      using that by (auto simp: r0(2) assign_cluster_fields en)
    from w 1 2 show ?thesis by blast
  qed
  have off: "cluster_summaries out = []" if "\<not> cluster_enabled out"
    using that en sums by simp
  have on: "fst ` set (cluster_summaries out) = cluster ` set (results out)
             \<and> (\<forall>name \<in> cluster ` set (results out).
                   \<exists>s. map_of (cluster_summaries out) name = Some s
                     \<and> count s = length (members (results out) name)
                     \<and> distinct (top_tokens s)
                     \<and> set (top_tokens s) \<subseteq> set (member_tokens (results out) name)
                     \<and> length (top_tokens s)
                         = min 5 (card (set (member_tokens (results out) name)))
                     \<and> sorted_wrt (more_frequent (results out) name) (top_tokens s)
                     \<and> (\<forall>t \<in> set (member_tokens (results out) name) - set (top_tokens s).
                           \<forall>u \<in> set (top_tokens s). more_frequent (results out) name u t))"
    if "cluster_enabled out"
  proof -
    from that en sums have s: "cluster_summaries out = build_cluster_summary (results out) 5"
      by simp
    have five: "(0::int) \<le> 5" by simp
    show ?thesis
      unfolding s using cluster_summary_ranked [OF five, of _ "results out"]
      by (simp add: build_cluster_summary_keys)
  qed
  from label have rows: "\<forall>r \<in> set (results out).
               why_tokens r
                 = explain_doc interest (own_vector ?docs (row_doc r)) (explain_top a)
               \<and> (cluster_enabled out \<and> why_tokens r \<noteq> [] \<longrightarrow>
                     cluster r = hd (why_tokens r)
                     \<and> cluster r \<in> set (positive_tokens interest (own_vector ?docs (row_doc r)))
                     \<and> (\<forall>u \<in> set (positive_tokens interest (own_vector ?docs (row_doc r))).
                           contribution interest (own_vector ?docs (row_doc r)) u
                             \<le> contribution interest (own_vector ?docs (row_doc r)) (cluster r)))
               \<and> (\<not> (cluster_enabled out \<and> why_tokens r \<noteq> []) \<longrightarrow>
                     cluster r = (if host (row_doc r) = [] then ''other'' else host (row_doc r)))"
    by (rule ballI)
  note summaries = conjI [OF impI [OF off] impI [OF on]]
  note all = conjI [OF refl conjI [OF cut conjI [OF ip conjI [OF rows conjI [OF en summaries]]]]]
  show ?thesis
    by (rule exI [of _ ?docs], rule exI [of _ cutoff], rule exI [of _ interest]) (rule all)
qed

section \<open>The clock and the local time zone\<close>









section \<open>A run on three documents\<close>

text \<open>
  Document 1 is recent; documents 3 and 2 are older and come in this order.  Document 2
  scores higher and is ranked first.  Its explanation is \<^verbatim>\<open>rust, safety\<close>; the two tokens of
  document 3 have equal contributions and its explanation is \<^verbatim>\<open>safety, rust\<close>.
\<close>

lemma date_utc_doc2: "fixed_offset_date 0 13000000000000000 = Inr ''2012-12-14''"
  by (simp add: fixed_offset_date_def ord2ymd_def strftime_Ymd_def digit_def
      DAYS_BEFORE_MONTH_def DAYS_IN_MONTH_def Let_def)


lemma date_utc_doc3: "fixed_offset_date 0 13100000000000000 = Inr ''2016-02-15''"
  by (simp add: fixed_offset_date_def ord2ymd_def strftime_Ymd_def digit_def
      DAYS_BEFORE_MONTH_def DAYS_IN_MONTH_def Let_def)


lemma example_run:
  assumes "local_date 13000000000000000 = Inr date2"
    and "local_date 13100000000000000 = Inr date3"
  shows "main_pipeline
       \<lparr>limit = 15, recent_days = 14, dedupe_host = False, explain_top = 5,
      no_cluster = False\<rparr>
       {} (\<lambda>s. False) local_date 13400000000000000
       [\<lparr>doc_id = 1, url = ''https://a.example/rust'', title = ''Rust safety rust'',
      visit_count = 5, last_visit = Some 13399000000000000, host = ''a.example'',
      tokens = [''rust'', ''safety'', ''rust'']\<rparr>,
        \<lparr>doc_id = 3, url = ''https://c.example/safety'', title = ''Rust safety safety'',
      visit_count = 1, last_visit = Some 13100000000000000, host = ''c.example'',
      tokens = [''rust'', ''safety'', ''safety'']\<rparr>,
        \<lparr>doc_id = 2, url = ''https://b.example/safety'', title = ''Rust safety'',
      visit_count = 2, last_visit = Some 13000000000000000, host = ''b.example'',
      tokens = [''rust'', ''safety'']\<rparr>]
     = Inr \<lparr>results =
              [assign_cluster True
                 \<lparr>score = cosine [(''rust'', 2), (''safety'', 1)] [(''rust'', 1), (''safety'', 1)],
                  row_doc = \<lparr>doc_id = 2, url = ''https://b.example/safety'', title = ''Rust safety'',
      visit_count = 2, last_visit = Some 13000000000000000, host = ''b.example'',
      tokens = [''rust'', ''safety'']\<rparr>,
                  last_visit_str = date2, why_tokens = [''rust'', ''safety'']\<rparr>,
               assign_cluster True
                 \<lparr>score = cosine [(''rust'', 2), (''safety'', 1)] [(''rust'', 1), (''safety'', 2)],
                  row_doc = \<lparr>doc_id = 3, url = ''https://c.example/safety'', title = ''Rust safety safety'',
      visit_count = 1, last_visit = Some 13100000000000000, host = ''c.example'',
      tokens = [''rust'', ''safety'', ''safety'']\<rparr>,
                  last_visit_str = date3, why_tokens = [''safety'', ''rust'']\<rparr>],
            cluster_enabled = True,
            cluster_summaries =
              [(''rust'', \<lparr>count = 1, top_tokens = [''rust'', ''safety'']\<rparr>),
               (''safety'', \<lparr>count = 1, top_tokens = [''rust'', ''safety'']\<rparr>)]\<rparr>"
proof -
  let ?a = "\<lparr>limit = 15, recent_days = 14, dedupe_host = False, explain_top = 5,
      no_cluster = False\<rparr>"
  let ?A = "\<lparr>doc_id = 1, url = ''https://a.example/rust'', title = ''Rust safety rust'',
      visit_count = 5, last_visit = Some 13399000000000000, host = ''a.example'',
      tokens = [''rust'', ''safety'', ''rust'']\<rparr>"
  let ?C = "\<lparr>doc_id = 3, url = ''https://c.example/safety'', title = ''Rust safety safety'',
      visit_count = 1, last_visit = Some 13100000000000000, host = ''c.example'',
      tokens = [''rust'', ''safety'', ''safety'']\<rparr>"
  let ?B = "\<lparr>doc_id = 2, url = ''https://b.example/safety'', title = ''Rust safety'',
      visit_count = 2, last_visit = Some 13000000000000000, host = ''b.example'',
      tokens = [''rust'', ''safety'']\<rparr>"
  let ?D = "[?A, ?C, ?B]"
  let ?none = "\<lambda>s :: string. False"
  let ?I = "[(''rust'', 2::real), (''safety'', 1)]"
  let ?vB = "[(''rust'', 1::real), (''safety'', 1)]"
  let ?vC = "[(''rust'', 1::real), (''safety'', 2)]"
  have dist: "distinct (map doc_id ?D)" by simp
  have f: "filter (\<lambda>d. is_reading_candidate d {} ?none) ?D = ?D"
    by (simp add: is_reading_candidate_def)
  have cut: "recency_cutoff 13400000000000000 14 = Inr 13398790400000000"
    by (simp add: recency_cutoff_def)
  have split: "filter (is_recent 13398790400000000) ?D = [?A]"
    "filter (is_older 13398790400000000) ?D = [?C, ?B]"
    by (simp_all add: is_recent_def is_older_def)
  have tf: "term_frequency [''rust'', ''safety'', ''rust''] = [(''rust'', 2), (''safety'', 1)]"
    "term_frequency [''rust'', ''safety'', ''safety''] = [(''rust'', 1), (''safety'', 2)]"
    "term_frequency [''rust'', ''safety''] = [(''rust'', 1), (''safety'', 1)]"
    by (simp_all add: term_frequency_def dict_set_def dict_get_def)
  have idf: "idf_of ?D ''rust'' = 1" "idf_of ?D ''safety'' = 1"
    by (simp_all add: idf_of_def df_of_def)
  have vA: "own_vector ?D ?A = ?I" and vC: "own_vector ?D ?C = ?vC"
    and vB: "own_vector ?D ?B = ?vB"
    by (simp_all add: own_vector_eq tf idf)
  have atA: "vector_at (tfidf_vectors ?D) (doc_index_of ?D) ?A = Inr ?I"
    using vector_at_own [OF dist, of ?A] by (simp add: vA)
  have atC: "vector_at (tfidf_vectors ?D) (doc_index_of ?D) ?C = Inr ?vC"
    using vector_at_own [OF dist, of ?C] by (simp add: vC)
  have atB: "vector_at (tfidf_vectors ?D) (doc_index_of ?D) ?B = Inr ?vB"
    using vector_at_own [OF dist, of ?B] by (simp add: vB)
  have ip: "interest_profile ?D [?A] = Inr ?I"
    by (simp add: interest_profile_def Let_def atA aggregate_vector_def dict_set_def dict_get_def)
  define s2 where "s2 = cosine ?I ?vB"
  define s3 where "s3 = cosine ?I ?vC"
  have s2: "s2 = 3 / (sqrt 5 * sqrt 2)"
    by (simp add: s2_def cosine_unfold code_dot_def norm_sq_def dict_get_def)
  have s3: "s3 = 4 / 5"
    by (simp add: s3_def cosine_unfold code_dot_def norm_sq_def dict_get_def)
  have "sqrt 5 * sqrt 2 = sqrt 10" by (simp add: real_sqrt_mult [symmetric])
  moreover have "sqrt 10 < 15 / 4"
    by (rule real_less_lsqrt) (simp_all add: power2_eq_square)
  moreover have "0 < sqrt 10" by simp
  ultimately have less: "s3 < s2"
    unfolding s2 s3 by (simp add: field_simps)
  have pos: "\<not> s3 \<le> 0" "\<not> s2 \<le> 0"
    using less by (simp_all add: s3)
  have sc: "score_candidates ?I (tfidf_vectors ?D) (doc_index_of ?D) [?C, ?B]
              = Inr [(s3, ?C), (s2, ?B)]"
    using pos by (simp add: atB atC s2_def [symmetric] s3_def [symmetric])
  have rk: "rank_scored [(s3, ?C), (s2, ?B)] = [(s2, ?B), (s3, ?C)]"
    using less by (simp add: rank_scored_def py_sort_reverse_key_def)
  have ex: "explain_doc ?I ?vB 5 = [''rust'', ''safety'']"
    "explain_doc ?I ?vC 5 = [''safety'', ''rust'']"
    by (simp_all add: explain_doc_def dict_get_def py_sort_reverse_key_def py_slice_to_def)
  define r2 where "r2 = \<lparr>score = s2, row_doc = ?B, last_visit_str = date2,
                          why_tokens = [''rust'', ''safety'']\<rparr>"
  define r3 where "r3 = \<lparr>score = s3, row_doc = ?C, last_visit_str = date3,
                          why_tokens = [''safety'', ''rust'']\<rparr>"
  have fr: "format_row local_date s2 ?B [''rust'', ''safety''] = Inr r2"
    "format_row local_date s3 ?C [''safety'', ''rust''] = Inr r3"
    by (simp_all add: format_row_def r2_def r3_def assms)
  have cr: "collect_results local_date ?a ?I (tfidf_vectors ?D) (doc_index_of ?D) {} []
              [(s2, ?B), (s3, ?C)] = Inr [r2, r3]"
    by (simp add: atB atC ex fr)
  have comp: "compute_results local_date ?a ?D [?A] [?C, ?B] = Inr [r2, r3]"
    by (simp add: compute_results_def Let_def ip sc rk cr
        del: score_candidates.simps collect_results.simps)
  have cl: "cluster (assign_cluster True r2) = ''rust''"
    "cluster (assign_cluster True r3) = ''safety''"
    "why_tokens (assign_cluster True r2) = [''rust'', ''safety'']"
    "why_tokens (assign_cluster True r3) = [''safety'', ''rust'']"
    by (simp_all add: assign_cluster_fields r2_def r3_def)
  have cs: "build_cluster_summary [assign_cluster True r2, assign_cluster True r3] 5
              = [(''rust'', \<lparr>count = 1, top_tokens = [''rust'', ''safety'']\<rparr>),
                 (''safety'', \<lparr>count = 1, top_tokens = [''rust'', ''safety'']\<rparr>)]"
    by (simp add: build_cluster_summary_def add_row_def summarize_def dict_set_def
        dict_get_def py_slice_to_def cl Let_def)
  show ?thesis
    by (simp add: main_pipeline_def Let_def f cut split comp cs
        r2_def [symmetric] r3_def [symmetric] s2_def [symmetric] s3_def [symmetric]
        del: filter.simps)
qed

theorem clustering_witness:
  "distinct (map doc_id
       [\<lparr>doc_id = 1, url = ''https://a.example/rust'', title = ''Rust safety rust'',
      visit_count = 5, last_visit = Some 13399000000000000, host = ''a.example'',
      tokens = [''rust'', ''safety'', ''rust'']\<rparr>,
        \<lparr>doc_id = 3, url = ''https://c.example/safety'', title = ''Rust safety safety'',
      visit_count = 1, last_visit = Some 13100000000000000, host = ''c.example'',
      tokens = [''rust'', ''safety'', ''safety'']\<rparr>,
        \<lparr>doc_id = 2, url = ''https://b.example/safety'', title = ''Rust safety'',
      visit_count = 2, last_visit = Some 13000000000000000, host = ''b.example'',
      tokens = [''rust'', ''safety'']\<rparr>])
   \<and> (\<exists>out.
     main_pipeline
       \<lparr>limit = 15, recent_days = 14, dedupe_host = False, explain_top = 5,
      no_cluster = False\<rparr>
       {} (\<lambda>s. False) (fixed_offset_date 0) 13400000000000000
       [\<lparr>doc_id = 1, url = ''https://a.example/rust'', title = ''Rust safety rust'',
      visit_count = 5, last_visit = Some 13399000000000000, host = ''a.example'',
      tokens = [''rust'', ''safety'', ''rust'']\<rparr>,
        \<lparr>doc_id = 3, url = ''https://c.example/safety'', title = ''Rust safety safety'',
      visit_count = 1, last_visit = Some 13100000000000000, host = ''c.example'',
      tokens = [''rust'', ''safety'', ''safety'']\<rparr>,
        \<lparr>doc_id = 2, url = ''https://b.example/safety'', title = ''Rust safety'',
      visit_count = 2, last_visit = Some 13000000000000000, host = ''b.example'',
      tokens = [''rust'', ''safety'']\<rparr>] = Inr out
      \<and> cluster_enabled out
      \<and> map cluster (results out) = [''rust'', ''safety'']
      \<and> map why_tokens (results out) = [[''rust'', ''safety''], [''safety'', ''rust'']]
      \<and> cluster_summaries out
          = [(''rust'', \<lparr>count = 1, top_tokens = [''rust'', ''safety'']\<rparr>),
             (''safety'', \<lparr>count = 1, top_tokens = [''rust'', ''safety'']\<rparr>)]
      \<and> fst ` set (cluster_summaries out) = cluster ` set (results out))"
proof -
  note run = example_run [of "fixed_offset_date 0", OF date_utc_doc2 date_utc_doc3]
  let ?out = "projr (main_pipeline
       \<lparr>limit = 15, recent_days = 14, dedupe_host = False, explain_top = 5,
      no_cluster = False\<rparr>
       {} (\<lambda>s. False) (fixed_offset_date 0) 13400000000000000
       [\<lparr>doc_id = 1, url = ''https://a.example/rust'', title = ''Rust safety rust'',
      visit_count = 5, last_visit = Some 13399000000000000, host = ''a.example'',
      tokens = [''rust'', ''safety'', ''rust'']\<rparr>,
        \<lparr>doc_id = 3, url = ''https://c.example/safety'', title = ''Rust safety safety'',
      visit_count = 1, last_visit = Some 13100000000000000, host = ''c.example'',
      tokens = [''rust'', ''safety'', ''safety'']\<rparr>,
        \<lparr>doc_id = 2, url = ''https://b.example/safety'', title = ''Rust safety'',
      visit_count = 2, last_visit = Some 13000000000000000, host = ''b.example'',
      tokens = [''rust'', ''safety'']\<rparr>])"
  have dist: "distinct (map doc_id
       [\<lparr>doc_id = 1, url = ''https://a.example/rust'', title = ''Rust safety rust'',
      visit_count = 5, last_visit = Some 13399000000000000, host = ''a.example'',
      tokens = [''rust'', ''safety'', ''rust'']\<rparr>,
        \<lparr>doc_id = 3, url = ''https://c.example/safety'', title = ''Rust safety safety'',
      visit_count = 1, last_visit = Some 13100000000000000, host = ''c.example'',
      tokens = [''rust'', ''safety'', ''safety'']\<rparr>,
        \<lparr>doc_id = 2, url = ''https://b.example/safety'', title = ''Rust safety'',
      visit_count = 2, last_visit = Some 13000000000000000, host = ''b.example'',
      tokens = [''rust'', ''safety'']\<rparr>])"
    by simp
  have out: "main_pipeline
       \<lparr>limit = 15, recent_days = 14, dedupe_host = False, explain_top = 5,
      no_cluster = False\<rparr>
       {} (\<lambda>s. False) (fixed_offset_date 0) 13400000000000000
       [\<lparr>doc_id = 1, url = ''https://a.example/rust'', title = ''Rust safety rust'',
      visit_count = 5, last_visit = Some 13399000000000000, host = ''a.example'',
      tokens = [''rust'', ''safety'', ''rust'']\<rparr>,
        \<lparr>doc_id = 3, url = ''https://c.example/safety'', title = ''Rust safety safety'',
      visit_count = 1, last_visit = Some 13100000000000000, host = ''c.example'',
      tokens = [''rust'', ''safety'', ''safety'']\<rparr>,
        \<lparr>doc_id = 2, url = ''https://b.example/safety'', title = ''Rust safety'',
      visit_count = 2, last_visit = Some 13000000000000000, host = ''b.example'',
      tokens = [''rust'', ''safety'']\<rparr>] = Inr ?out"
    by (simp only: run sum.sel)
  have en: "cluster_enabled ?out"
    unfolding run by simp
  have cl: "map cluster (results ?out) = [''rust'', ''safety'']"
    unfolding run by (simp add: assign_cluster_fields)
  have wt: "map why_tokens (results ?out) = [[''rust'', ''safety''], [''safety'', ''rust'']]"
    unfolding run by (simp add: assign_cluster_fields)
  have cs: "cluster_summaries ?out
          = [(''rust'', \<lparr>count = 1, top_tokens = [''rust'', ''safety'']\<rparr>),
             (''safety'', \<lparr>count = 1, top_tokens = [''rust'', ''safety'']\<rparr>)]"
    unfolding run by simp
  from clustering [OF out dist] en
  have keys: "fst ` set (cluster_summaries ?out) = cluster ` set (results ?out)"
    by blast
  note all = conjI [OF out conjI [OF en conjI [OF cl conjI [OF wt conjI [OF cs keys]]]]]
  show ?thesis
    by (rule conjI [OF dist]) (rule exI [of _ ?out], rule all)
qed



end
